theory Spec2Isabelle
  imports Complex_Main "HOL-Library.Sublist"
begin

section \<open>Text helpers used by the orchestrator\<close>

text \<open>
  Python strings are modelled as \<open>string\<close>; a character stands for a code point below 256.
  \<open>is_space\<close> is the whitespace class of \<^verbatim>\<open>\s\<close> in a \<^verbatim>\<open>str\<close> pattern and of
  \<^verbatim>\<open>str.strip()\<close>, restricted to these code points.
\<close>

definition is_space :: "char \<Rightarrow> bool" where
  "is_space c = ((of_char c :: nat) \<in> {9, 10, 11, 12, 13, 28, 29, 30, 31, 32, 133, 160})"

definition strip :: "string \<Rightarrow> string" where
  "strip s = rev (dropWhile is_space (rev (dropWhile is_space s)))"

text \<open>
  \<open>after_first pat s\<close> is the text that follows the leftmost occurrence of \<open>pat\<close> in \<open>s\<close>,
  the place where a non-greedy \<^verbatim>\<open>.*?\<close> followed by the literal \<open>pat\<close> stops.
\<close>

fun after_first :: "string \<Rightarrow> string \<Rightarrow> string option" where
  "after_first pat [] = (if pat = [] then Some [] else None)"
| "after_first pat (c # cs) =
     (if prefix pat (c # cs) then Some (drop (length pat) (c # cs)) else after_first pat cs)"

lemma after_first_length: "after_first pat s = Some r \<Longrightarrow> length r \<le> length s"
  by (induction s) (auto split: if_splits)

text \<open>
  \<^verbatim>\<open>re.sub(r'<think>.*?</think>', '', response, flags=re.DOTALL)\<close>: scanning from the left,
  a start marker that has an end marker somewhere after it is removed together with everything
  up to the first such end marker; a start marker with no end marker after it is kept.
\<close>

function strip_think :: "string \<Rightarrow> string" where
  "strip_think s =
     (case s of
        [] \<Rightarrow> []
      | c # cs \<Rightarrow>
          if prefix ''<think>'' s then
            (case after_first ''</think>'' (drop 7 s) of
               Some rest \<Rightarrow> strip_think rest
             | None \<Rightarrow> c # strip_think cs)
          else c # strip_think cs)"
  by pat_completeness auto
termination
proof (relation "measure length")
  show "wf (measure length)" by simp
next
  fix s :: string and c cs rest
  assume "s = c # cs" and "after_first ''</think>'' (drop 7 s) = Some rest"
  then have "length rest \<le> length (drop 7 s)" by (simp only: after_first_length)
  with \<open>s = c # cs\<close> show "(rest, s) \<in> measure length" by simp
qed auto

declare strip_think.simps [simp del]

subsection \<open>How the stripping unfolds\<close>

lemma strip_think_Nil [simp]: "strip_think [] = []"
  by (simp add: strip_think.simps)

lemma strip_think_keep:
  "\<not> prefix ''<think>'' (c # cs) \<Longrightarrow> strip_think (c # cs) = c # strip_think cs"
  by (subst strip_think.simps) auto

lemma strip_think_open:
  "strip_think (''<think>'' @ r) =
     (case after_first ''</think>'' r of
        Some rest \<Rightarrow> strip_think rest
      | None \<Rightarrow> ''<think>'' @ strip_think r)"
  by (subst strip_think.simps) (simp add: strip_think_keep split: option.splits)

lemma strip_think_close: "strip_think (''</think>'' @ r) = ''</think>'' @ strip_think r"
  by (simp add: strip_think_keep)

subsection \<open>Texts as sequences of markers and other characters\<close>

text \<open>
  A text in which every \<open><\<close> begins a complete start or end marker is a sequence of
  markers and of characters other than \<open><\<close>. On such a sequence the stripping removes
  each start marker with everything up to the next end marker, and what it leaves has no
  start marker with an end marker after it.
\<close>

datatype tok = Ch char | Open | Close

fun render :: "tok list \<Rightarrow> string" where
  "render [] = []"
| "render (Ch c # ts) = c # render ts"
| "render (Open # ts) = ''<think>'' @ render ts"
| "render (Close # ts) = ''</think>'' @ render ts"

fun after_close :: "tok list \<Rightarrow> tok list option" where
  "after_close [] = None"
| "after_close (Close # ts) = Some ts"
| "after_close (t # ts) = after_close ts"

lemma after_close_length: "after_close ts = Some r \<Longrightarrow> length r < Suc (length ts)"
  by (induction ts rule: after_close.induct) auto

function strip_toks :: "tok list \<Rightarrow> tok list" where
  "strip_toks [] = []"
| "strip_toks (Open # ts) =
     (case after_close ts of Some rest \<Rightarrow> strip_toks rest | None \<Rightarrow> Open # strip_toks ts)"
| "strip_toks (Ch c # ts) = Ch c # strip_toks ts"
| "strip_toks (Close # ts) = Close # strip_toks ts"
  by pat_completeness auto
termination
  by (relation "measure length") (auto dest: after_close_length)

definition plain :: "tok list \<Rightarrow> bool" where
  "plain ts = (\<forall>c. Ch c \<in> set ts \<longrightarrow> c \<noteq> CHR ''<'')"

lemma after_close_set: "after_close ts = Some r \<Longrightarrow> set r \<subseteq> set ts"
  by (induction ts rule: after_close.induct) auto

lemma after_first_render:
  "plain ts \<Longrightarrow> after_first ''</think>'' (render ts) = map_option render (after_close ts)"
  by (induction ts rule: after_close.induct) (auto simp: plain_def)

lemma strip_think_render: "plain ts \<Longrightarrow> strip_think (render ts) = render (strip_toks ts)"
proof (induction ts rule: strip_toks.induct)
  case 1
  then show ?case by simp
next
  case (2 ts)
  show ?case
  proof (cases "after_close ts")
    case None
    with 2 show ?thesis
      using strip_think_open[of "render ts"] by (simp add: after_first_render plain_def)
  next
    case (Some rest)
    then have "plain rest" using 2(3) after_close_set[OF Some] by (auto simp: plain_def)
    with 2 Some show ?thesis
      using strip_think_open[of "render ts"] by (simp add: after_first_render plain_def)
  qed
next
  case (3 c ts)
  then have "c \<noteq> CHR ''<''" and "plain ts" by (auto simp: plain_def)
  with 3 show ?case by (simp add: strip_think_keep)
next
  case (4 ts)
  then show ?case using strip_think_close[of "render ts"] by (simp add: plain_def)
qed

lemma after_close_None: "after_close ts = None \<longleftrightarrow> Close \<notin> set ts"
  by (induction ts rule: after_close.induct) auto

lemma strip_toks_set: "set (strip_toks ts) \<subseteq> set ts"
proof (induction ts rule: strip_toks.induct)
  case (2 ts)
  show ?case
  proof (cases "after_close ts")
    case None
    with 2 show ?thesis by auto
  next
    case (Some rest)
    then have "set rest \<subseteq> set ts" by (rule after_close_set)
    with 2 Some show ?thesis by auto
  qed
qed auto

fun has_pair_t :: "tok list \<Rightarrow> bool" where
  "has_pair_t [] = False"
| "has_pair_t (Open # ts) = (after_close ts \<noteq> None \<or> has_pair_t ts)"
| "has_pair_t (t # ts) = has_pair_t ts"

lemma strip_toks_no_pair: "\<not> has_pair_t (strip_toks ts)"
proof (induction ts rule: strip_toks.induct)
  case (2 ts)
  show ?case
  proof (cases "after_close ts")
    case None
    then have "Close \<notin> set (strip_toks ts)"
      using strip_toks_set[of ts] by (auto simp: after_close_None)
    then have "after_close (strip_toks ts) = None" by (simp add: after_close_None)
    with 2 None show ?thesis by simp
  next
    case (Some rest)
    with 2 show ?thesis by simp
  qed
qed auto

lemma strip_toks_id: "\<not> has_pair_t ts \<Longrightarrow> strip_toks ts = ts"
  by (induction ts rule: strip_toks.induct) auto

lemma plain_strip_toks: "plain ts \<Longrightarrow> plain (strip_toks ts)"
  using strip_toks_set[of ts] by (auto simp: plain_def)

lemma strip_think_render_idem:
  assumes "plain ts"
  shows "strip_think (strip_think (render ts)) = strip_think (render ts)"
proof -
  have "strip_think (strip_think (render ts)) = render (strip_toks (strip_toks ts))"
    using assms by (simp add: strip_think_render plain_strip_toks)
  also have "\<dots> = render (strip_toks ts)"
    by (simp add: strip_toks_id strip_toks_no_pair)
  finally show ?thesis using assms by (simp add: strip_think_render)
qed

text \<open>Every \<open><\<close> of the text begins a complete start or end marker.\<close>

fun well_marked :: "string \<Rightarrow> bool" where
  "well_marked [] = True"
| "well_marked (c # cs) =
     ((c = CHR ''<'' \<longrightarrow> prefix ''<think>'' (c # cs) \<or> prefix ''</think>'' (c # cs))
      \<and> well_marked cs)"

lemma well_marked_drop: "well_marked s \<Longrightarrow> well_marked (drop n s)"
proof (induction s arbitrary: n)
  case (Cons c cs)
  then show ?case by (cases n) auto
qed simp

function tokens :: "string \<Rightarrow> tok list" where
  "tokens s =
     (case s of
        [] \<Rightarrow> []
      | c # cs \<Rightarrow>
          if prefix ''<think>'' s then Open # tokens (drop 7 s)
          else if prefix ''</think>'' s then Close # tokens (drop 8 s)
          else Ch c # tokens cs)"
  by pat_completeness auto
termination
  by (relation "measure length") auto

declare tokens.simps [simp del]

lemma tokens_render: "well_marked s \<Longrightarrow> plain (tokens s) \<and> render (tokens s) = s"
proof (induction s rule: tokens.induct)
  case (1 s)
  show ?case
  proof (cases s)
    case Nil
    then show ?thesis by (simp add: tokens.simps plain_def)
  next
    case (Cons c cs)
    show ?thesis
    proof (cases "prefix ''<think>'' s")
      case True
      then obtain r where r: "s = ''<think>'' @ r" by (auto simp: prefix_def)
      have "well_marked (drop 7 s)" using "1.prems" by (rule well_marked_drop)
      with 1(1)[OF Cons True] have "plain (tokens r) \<and> render (tokens r) = r"
        using r by simp
      then show ?thesis using r by (subst tokens.simps, subst (2) tokens.simps) (simp add: plain_def)
    next
      case False
      note nopen = this
      show ?thesis
      proof (cases "prefix ''</think>'' s")
        case True
        then obtain r where r: "s = ''</think>'' @ r" by (auto simp: prefix_def)
        have "well_marked (drop 8 s)" using "1.prems" by (rule well_marked_drop)
        with 1(2)[OF Cons nopen True] have "plain (tokens r) \<and> render (tokens r) = r"
          using r by simp
        then show ?thesis using r
          by (subst tokens.simps, subst (2) tokens.simps) (simp add: plain_def)
      next
        case False
        have wm: "well_marked cs" and "c \<noteq> CHR ''<''"
          using "1.prems" Cons nopen False by auto
        with 1(3)[OF Cons nopen False] have "plain (tokens cs) \<and> render (tokens cs) = cs"
          by simp
        then show ?thesis using Cons nopen False \<open>c \<noteq> CHR ''<''\<close>
          by (subst tokens.simps, subst (2) tokens.simps) (simp add: plain_def)
      qed
    qed
  qed
qed

lemma strip_think_idem_well_marked:
  "well_marked s \<Longrightarrow> strip_think (strip_think s) = strip_think s"
  using strip_think_render_idem[of "tokens s"] tokens_render[of s] by simp

text \<open>The text holds a start marker with an end marker somewhere after it.\<close>

fun has_pair :: "string \<Rightarrow> bool" where
  "has_pair [] = False"
| "has_pair (c # cs) =
     ((prefix ''<think>'' (c # cs) \<and> after_first ''</think>'' (drop 7 (c # cs)) \<noteq> None)
      \<or> has_pair cs)"

lemma strip_think_length: "length (strip_think s) \<le> length s"
proof (induction s rule: strip_think.induct)
  case (1 s)
  show ?case
  proof (cases s)
    case Nil
    then show ?thesis by simp
  next
    case (Cons c cs)
    show ?thesis
    proof (cases "prefix ''<think>'' s")
      case True
      show ?thesis
      proof (cases "after_first ''</think>'' (drop 7 s)")
        case None
        then show ?thesis using 1(1)[OF Cons True None] Cons True
          by (subst strip_think.simps) simp
      next
        case (Some rest)
        then have "length rest \<le> length (drop 7 s)" by (rule after_first_length)
        then show ?thesis using 1(2)[OF Cons True Some] Cons True Some
          by (subst strip_think.simps) simp
      qed
    next
      case False
      then have "strip_think s = c # strip_think cs"
        using Cons by (simp add: strip_think_keep)
      then show ?thesis using 1(3)[OF Cons False] Cons by simp
    qed
  qed
qed

lemma strip_think_no_pair: "\<not> has_pair s \<Longrightarrow> strip_think s = s"
proof (induction s)
  case (Cons c cs)
  then show ?case
    by (subst strip_think.simps) (auto split: option.splits)
qed simp

lemma strip_think_pair_shorter: "has_pair s \<Longrightarrow> length (strip_think s) < length s"
proof (induction s)
  case (Cons c cs)
  show ?case
  proof (cases "prefix ''<think>'' (c # cs) \<and> after_first ''</think>'' (drop 7 (c # cs)) \<noteq> None")
    case True
    then obtain rest where rest: "after_first ''</think>'' (drop 7 (c # cs)) = Some rest" by auto
    then have "length rest \<le> length (drop 7 (c # cs))" by (rule after_first_length)
    moreover have "length (strip_think rest) \<le> length rest" by (rule strip_think_length)
    ultimately show ?thesis using True rest
      by (subst strip_think.simps) simp
  next
    case False
    then have hp: "has_pair cs" using Cons.prems by auto
    from False Cons.IH[OF hp] show ?thesis
      by (subst strip_think.simps) (auto split: option.splits)
  qed
qed simp

lemma strip_think_fixed_iff: "strip_think s = s \<longleftrightarrow> \<not> has_pair s"
  using strip_think_no_pair[of s] strip_think_pair_shorter[of s] by auto

section \<open>JSON values and the decoder\<close>

text \<open>
  The values that \<^verbatim>\<open>json.loads\<close> produces and that tools return. A Python \<^verbatim>\<open>dict\<close> is
  an association list in insertion order with distinct keys; a \<^verbatim>\<open>float\<close> is kept as its
  decimal text (its rounding to a double is not modelled).
\<close>

datatype json =
    JNull
  | JBool bool
  | JInt int
  | JFloat string
  | JStr string
  | JArr "json list"
  | JObj "(string \<times> json) list"

type_synonym dict = "(string \<times> json) list"

text \<open>\<^verbatim>\<open>d[k] = v\<close>: an existing key keeps its place, a new key goes last.\<close>

fun dict_set :: "string \<Rightarrow> json \<Rightarrow> dict \<Rightarrow> dict" where
  "dict_set k v [] = [(k, v)]"
| "dict_set k v (p # ps) = (if fst p = k then (k, v) # ps else p # dict_set k v ps)"

subsection \<open>Lexical level\<close>

definition json_ws :: "char \<Rightarrow> bool" where
  "json_ws c = (c = CHR '' '' \<or> c = CHR 0x09 \<or> c = CHR 0x0A \<or> c = CHR 0x0D)"

definition is_digit :: "char \<Rightarrow> bool" where
  "is_digit c = (48 \<le> (of_char c :: nat) \<and> (of_char c :: nat) \<le> 57)"

definition digits_val :: "string \<Rightarrow> nat" where
  "digits_val ds = foldl (\<lambda>n c. 10 * n + (of_char c - 48)) 0 ds"

definition hex_val :: "char \<Rightarrow> nat option" where
  "hex_val c =
     (let n = (of_char c :: nat) in
      if 48 \<le> n \<and> n \<le> 57 then Some (n - 48)
      else if 97 \<le> n \<and> n \<le> 102 then Some (n - 87)
      else if 65 \<le> n \<and> n \<le> 70 then Some (n - 55)
      else None)"

definition hex4 :: "char \<Rightarrow> char \<Rightarrow> char \<Rightarrow> char \<Rightarrow> nat option" where
  "hex4 a b c d =
     (case (hex_val a, hex_val b, hex_val c, hex_val d) of
        (Some w, Some x, Some y, Some z) \<Rightarrow> Some (((w * 16 + x) * 16 + y) * 16 + z)
      | _ \<Rightarrow> None)"

definition unescape :: "char \<Rightarrow> char option" where
  \<open>unescape e =
     (if e = CHR ''"'' \<or> e = CHR 0x5C \<or> e = CHR ''/'' then Some e
      else if e = CHR ''b'' then Some (CHR 0x08)
      else if e = CHR ''f'' then Some (CHR 0x0C)
      else if e = CHR ''n'' then Some (CHR 0x0A)
      else if e = CHR ''r'' then Some (CHR 0x0D)
      else if e = CHR ''t'' then Some (CHR 0x09)
      else None)\<close>

definition cons_res :: "char \<Rightarrow> (string \<times> string) option \<Rightarrow> (string \<times> string) option" where
  "cons_res x r = map_option (\<lambda>(s, rest). (x # s, rest)) r"

text \<open>
  The body of a string literal, after its opening quote, in strict mode: the decoded text
  and what follows the closing quote. An escape \<^verbatim>\<open>\uXXXX\<close> of a code point from 256 on
  has no value in this model and is rejected.
\<close>

fun scan_string :: "string \<Rightarrow> (string \<times> string) option" where
  "scan_string [] = None"
| \<open>scan_string (c # cs) =
     (if c = CHR ''"'' then Some ([], cs)
      else if c = CHR 0x5C then
        (case cs of
           [] \<Rightarrow> None
         | e # es \<Rightarrow>
             if e = CHR ''u'' then
               (case es of
                  h1 # h2 # h3 # h4 # r \<Rightarrow>
                    (case hex4 h1 h2 h3 h4 of
                       Some n \<Rightarrow> if n < 256 then cons_res (char_of n) (scan_string r) else None
                     | None \<Rightarrow> None)
                | _ \<Rightarrow> None)
             else
               (case unescape e of
                  Some x \<Rightarrow> cons_res x (scan_string es)
                | None \<Rightarrow> None))
      else if (of_char c :: nat) < 32 then None
      else cons_res c (scan_string cs))\<close>

lemma scan_string_length: "scan_string s = Some (v, rest) \<Longrightarrow> length rest < length s"
proof (induction s arbitrary: v rest rule: scan_string.induct)
  case 1
  then show ?case by simp
next
  case (2 c cs)
  then show ?case
    by (fastforce simp: cons_res_def split: if_splits list.splits option.splits)
qed

text \<open>
  A number, by the decoder's pattern
  \<^verbatim>\<open>(-?(?:0|[1-9][0-9]*))(\.[0-9]+)?([eE][-+]?[0-9]+)?\<close>: an \<^verbatim>\<open>int\<close> when it has neither
  fraction nor exponent.
\<close>

definition scan_frac :: "string \<Rightarrow> string \<times> string" where
  "scan_frac r =
     (case r of
        c # t \<Rightarrow>
          if c = CHR ''.'' \<and> takeWhile is_digit t \<noteq> []
          then (c # takeWhile is_digit t, dropWhile is_digit t)
          else ([], r)
      | [] \<Rightarrow> ([], r))"

definition scan_sign :: "string \<Rightarrow> string \<times> string" where
  "scan_sign t =
     (case t of
        x # u \<Rightarrow> if x = CHR ''+'' \<or> x = CHR ''-'' then ([x], u) else ([], t)
      | [] \<Rightarrow> ([], t))"

definition scan_exp :: "string \<Rightarrow> string \<times> string" where
  "scan_exp r =
     (case r of
        e # t \<Rightarrow>
          if (e = CHR ''e'' \<or> e = CHR ''E'') \<and> takeWhile is_digit (snd (scan_sign t)) \<noteq> []
          then (e # fst (scan_sign t) @ takeWhile is_digit (snd (scan_sign t)),
                dropWhile is_digit (snd (scan_sign t)))
          else ([], r)
      | [] \<Rightarrow> ([], r))"

definition scan_number :: "string \<Rightarrow> (json \<times> string) option" where
  "scan_number s =
     (let neg = (s \<noteq> [] \<and> hd s = CHR ''-'');
          s1 = (if neg then tl s else s)
      in case s1 of
           [] \<Rightarrow> None
         | d # r \<Rightarrow>
             if \<not> is_digit d then None
             else
               let ip = (if d = CHR ''0'' then [d] else d # takeWhile is_digit r);
                   r1 = drop (length ip) s1;
                   frac = fst (scan_frac r1);
                   r2 = snd (scan_frac r1);
                   ex = fst (scan_exp r2);
                   r3 = snd (scan_exp r2)
               in if frac = [] \<and> ex = []
                  then Some (JInt ((if neg then - 1 else 1) * int (digits_val ip)), r3)
                  else Some (JFloat ((if neg then ''-'' else []) @ ip @ frac @ ex), r3))"

lemma scan_frac_length: "length (snd (scan_frac r)) \<le> length r"
  by (auto simp: scan_frac_def split: list.splits intro: le_SucI length_dropWhile_le)

lemma scan_sign_length: "length (snd (scan_sign r)) \<le> length r"
  by (auto simp: scan_sign_def split: list.splits)

lemma scan_exp_length: "length (snd (scan_exp r)) \<le> length r"
proof (cases r)
  case Nil
  then show ?thesis by (simp add: scan_exp_def)
next
  case (Cons e t)
  have "length (dropWhile is_digit (snd (scan_sign t))) \<le> length t"
    using length_dropWhile_le[of is_digit "snd (scan_sign t)"] scan_sign_length[of t]
    by linarith
  with Cons show ?thesis by (simp add: scan_exp_def)
qed

lemma scan_number_length:
  assumes "scan_number s = Some (v, rest)"
  shows "length rest < length s"
proof -
  let ?neg = "s \<noteq> [] \<and> hd s = CHR ''-''"
  let ?s1 = "if ?neg then tl s else s"
  from assms obtain d r where s1: "?s1 = d # r" and dig: "is_digit d"
    by (auto simp: scan_number_def Let_def split: list.splits if_splits)
  let ?ip = "if d = CHR ''0'' then [d] else d # takeWhile is_digit r"
  let ?r1 = "drop (length ?ip) ?s1"
  have rest: "rest = snd (scan_exp (snd (scan_frac ?r1)))"
    using assms s1 dig
    by (auto simp: scan_number_def Let_def split: list.splits if_splits)
  have "length ?ip \<ge> 1" by simp
  then have "length ?r1 < length ?s1" using s1 by (auto split: if_splits)
  moreover have "length rest \<le> length ?r1"
    unfolding rest
    using scan_exp_length[of "snd (scan_frac ?r1)"] scan_frac_length[of ?r1] by linarith
  moreover have "length ?s1 \<le> length s" by simp
  ultimately show ?thesis by linarith
qed

subsection \<open>Tokens\<close>

datatype token = TLBrace | TRBrace | TLBrack | TRBrack | TColon | TComma | TVal json

definition cons_tok :: "token \<Rightarrow> token list option \<Rightarrow> token list option" where
  "cons_tok t r = map_option (Cons t) r"

function tokenize :: "string \<Rightarrow> token list option" where
  \<open>tokenize s =
     (case s of
        [] \<Rightarrow> Some []
      | c # cs \<Rightarrow>
          if json_ws c then tokenize cs
          else if c = CHR ''{'' then cons_tok TLBrace (tokenize cs)
          else if c = CHR ''}'' then cons_tok TRBrace (tokenize cs)
          else if c = CHR ''['' then cons_tok TLBrack (tokenize cs)
          else if c = CHR '']'' then cons_tok TRBrack (tokenize cs)
          else if c = CHR '':'' then cons_tok TColon (tokenize cs)
          else if c = CHR '','' then cons_tok TComma (tokenize cs)
          else if c = CHR ''"'' then
            (case scan_string cs of
               None \<Rightarrow> None
             | Some (str, rest) \<Rightarrow> cons_tok (TVal (JStr str)) (tokenize rest))
          else if prefix ''null'' s then cons_tok (TVal JNull) (tokenize (drop 4 s))
          else if prefix ''true'' s then cons_tok (TVal (JBool True)) (tokenize (drop 4 s))
          else if prefix ''false'' s then cons_tok (TVal (JBool False)) (tokenize (drop 5 s))
          else if prefix ''NaN'' s then cons_tok (TVal (JFloat ''nan'')) (tokenize (drop 3 s))
          else if prefix ''Infinity'' s then cons_tok (TVal (JFloat ''inf'')) (tokenize (drop 8 s))
          else if prefix ''-Infinity'' s then cons_tok (TVal (JFloat ''-inf'')) (tokenize (drop 9 s))
          else
            (case scan_number s of
               None \<Rightarrow> None
             | Some (v, rest) \<Rightarrow> cons_tok (TVal v) (tokenize rest)))\<close>
  by pat_completeness auto
termination
  by (relation "measure length")
    (auto dest: scan_string_length scan_number_length)

declare tokenize.simps [simp del]

subsection \<open>Grammar level\<close>

text \<open>
  The decoder's grammar as one pass over the tokens with a stack of the containers that
  are open. An object under construction holds the key that waits for its value; a key
  that occurs twice keeps its place and takes the later value, as a \<^verbatim>\<open>dict\<close> does.
\<close>

datatype frame = FArr "json list" | FObj dict "string option"

datatype expect = EValue | EValueOrEnd | EKeyOrEnd | EKey | EColon | ECommaOrEnd | EDone

type_synonym pstate = "frame list \<times> expect \<times> json option"

fun push_value :: "json \<Rightarrow> frame list \<Rightarrow> pstate option" where
  "push_value v [] = Some ([], EDone, Some v)"
| "push_value v (FArr items # st) = Some (FArr (items @ [v]) # st, ECommaOrEnd, None)"
| "push_value v (FObj kvs (Some k) # st) = Some (FObj (dict_set k v kvs) None # st, ECommaOrEnd, None)"
| "push_value v (FObj kvs None # st) = None"

definition open_value :: "frame list \<Rightarrow> token \<Rightarrow> pstate option" where
  "open_value st t =
     (case t of
        TVal v \<Rightarrow> push_value v st
      | TLBrace \<Rightarrow> Some (FObj [] None # st, EKeyOrEnd, None)
      | TLBrack \<Rightarrow> Some (FArr [] # st, EValueOrEnd, None)
      | _ \<Rightarrow> None)"

definition read_key :: "frame list \<Rightarrow> token \<Rightarrow> pstate option" where
  "read_key st t =
     (case st of
        FObj kvs None # st' \<Rightarrow>
          (case t of
             TVal (JStr k) \<Rightarrow> Some (FObj kvs (Some k) # st', EColon, None)
           | _ \<Rightarrow> None)
      | _ \<Rightarrow> None)"

definition close_obj :: "frame list \<Rightarrow> pstate option" where
  "close_obj st =
     (case st of FObj kvs None # st' \<Rightarrow> push_value (JObj kvs) st' | _ \<Rightarrow> None)"

definition close_arr :: "frame list \<Rightarrow> pstate option" where
  "close_arr st =
     (case st of FArr items # st' \<Rightarrow> push_value (JArr items) st' | _ \<Rightarrow> None)"

definition pstep :: "pstate \<Rightarrow> token \<Rightarrow> pstate option" where
  "pstep p t =
     (case p of (st, e, r) \<Rightarrow>
        (case e of
           EValue \<Rightarrow> open_value st t
         | EValueOrEnd \<Rightarrow> (case t of TRBrack \<Rightarrow> close_arr st | _ \<Rightarrow> open_value st t)
         | EKeyOrEnd \<Rightarrow> (case t of TRBrace \<Rightarrow> close_obj st | _ \<Rightarrow> read_key st t)
         | EKey \<Rightarrow> read_key st t
         | EColon \<Rightarrow> (case t of TColon \<Rightarrow> Some (st, EValue, None) | _ \<Rightarrow> None)
         | ECommaOrEnd \<Rightarrow>
             (case t of
                TComma \<Rightarrow>
                  (case st of
                     FArr items # st' \<Rightarrow> Some (st, EValue, None)
                   | FObj kvs None # st' \<Rightarrow> Some (st, EKey, None)
                   | _ \<Rightarrow> None)
              | TRBrack \<Rightarrow> close_arr st
              | TRBrace \<Rightarrow> close_obj st
              | _ \<Rightarrow> None)
         | EDone \<Rightarrow> None))"

fun run_tokens :: "pstate \<Rightarrow> token list \<Rightarrow> json option" where
  "run_tokens (st, e, r) [] = (if e = EDone then r else None)"
| "run_tokens p (t # ts) = (case pstep p t of None \<Rightarrow> None | Some p' \<Rightarrow> run_tokens p' ts)"

text \<open>
  \<^verbatim>\<open>json.loads\<close>: \<open>None\<close> stands for \<^verbatim>\<open>JSONDecodeError\<close>. One value, with
  whitespace allowed around it and between tokens, and nothing else after it.
\<close>

definition json_loads :: "string \<Rightarrow> json option" where
  "json_loads s =
     (case tokenize s of
        None \<Rightarrow> None
      | Some ts \<Rightarrow> run_tokens ([], EValue, None) ts)"

section \<open>The response parser: \<^verbatim>\<open>_parse_tool_request\<close>\<close>

text \<open>
  \<^verbatim>\<open>re.sub(pat + r'\s*', '', s)\<close> for a literal, non-empty \<open>pat\<close>: every occurrence of the
  fence marker goes, with the whitespace that follows it; the enclosed text stays.
\<close>

function sub_fence :: "string \<Rightarrow> string \<Rightarrow> string" where
  "sub_fence pat s =
     (case s of
        [] \<Rightarrow> []
      | c # cs \<Rightarrow>
          if pat \<noteq> [] \<and> prefix pat s
          then sub_fence pat (dropWhile is_space (drop (length pat) s))
          else c # sub_fence pat cs)"
  by pat_completeness auto
termination
proof (relation "measure (\<lambda>(pat, s). length s)", goal_cases)
  case 1
  then show ?case by simp
next
  case (2 pat s c cs)
  have "length (dropWhile is_space (drop (length pat) s)) \<le> length (drop (length pat) s)"
    by (rule length_dropWhile_le)
  with 2 show ?case by (cases pat) auto
next
  case (3 pat s c cs)
  then show ?case by simp
qed

declare sub_fence.simps [simp del]

text \<open>The first three statements of \<^verbatim>\<open>_parse_tool_request\<close> and the final \<^verbatim>\<open>strip()\<close>.\<close>

definition clean_response :: "string \<Rightarrow> string" where
  "clean_response response =
     strip (sub_fence ''```'' (sub_fence ''```json'' (strip_think response)))"

text \<open>
  The nested \<^verbatim>\<open>extract_json_object\<close>: from the first \<open>{\<close>, count braces until the depth
  is back at zero. \<open>scan_braces depth text\<close> is the loop, returning the text up to and
  including the closing brace.
\<close>

fun scan_braces :: "int \<Rightarrow> string \<Rightarrow> string option" where
  "scan_braces depth [] = None"
| "scan_braces depth (c # cs) =
     (if c = CHR ''{'' then map_option (Cons c) (scan_braces (depth + 1) cs)
      else if c = CHR ''}'' then
        (if depth - 1 = 0 then Some [c] else map_option (Cons c) (scan_braces (depth - 1) cs))
      else map_option (Cons c) (scan_braces depth cs))"

definition extract_json_object :: "string \<Rightarrow> string option" where
  "extract_json_object text = scan_braces 0 (dropWhile (\<lambda>c. c \<noteq> CHR ''{'') text)"

text \<open>
  One \<^verbatim>\<open>try\<close> block of the parser, for the decoder \<open>loads\<close>: \<open>Some r\<close> when the block
  returns \<open>r\<close> (\<open>None\<close> for Python's \<^verbatim>\<open>None\<close>), \<open>None\<close> when control falls through to the
  code after the block.
\<close>

definition try_loads :: "(string \<Rightarrow> json option) \<Rightarrow> string \<Rightarrow> dict option option" where
  "try_loads loads s =
     (case loads s of
        Some (JObj parsed) \<Rightarrow>
          if map_of parsed ''tool'' \<noteq> None then
            (if map_of parsed ''tool'' = Some JNull \<or> map_of parsed ''tool'' = Some (JStr ''null'')
             then Some None
             else Some (Some parsed))
          else None
      | _ \<Rightarrow> None)"

definition parse_tool_request :: "(string \<Rightarrow> json option) \<Rightarrow> string \<Rightarrow> dict option" where
  "parse_tool_request loads response =
     (let response = clean_response response in
      case try_loads loads response of
        Some result \<Rightarrow> result
      | None \<Rightarrow>
          (case extract_json_object response of
             Some json_str \<Rightarrow>
               (case try_loads loads json_str of
                  Some result \<Rightarrow> result
                | None \<Rightarrow> None)
           | None \<Rightarrow> None))"

subsection \<open>Facts about cleaning and extraction\<close>

lemma dropWhile_mid: "\<not> P x \<Longrightarrow> dropWhile P (u @ x # y) = dropWhile P u @ x # y"
  by (induction u) auto

lemma prefix_boundary:
  assumes "prefix pat (s @ x # y)" and "x \<notin> set pat"
  shows "prefix pat s"
proof -
  from assms(1) have "prefix pat s \<or> (\<exists>us. pat = s @ us \<and> prefix us (x # y))"
    by (simp add: prefix_append)
  then show ?thesis
  proof
    assume "\<exists>us. pat = s @ us \<and> prefix us (x # y)"
    then obtain us where us: "pat = s @ us" "prefix us (x # y)" by blast
    show ?thesis
    proof (cases us)
      case Nil
      with us show ?thesis by simp
    next
      case (Cons u us')
      with us have "u = x" by simp
      with us Cons assms(2) show ?thesis by simp
    qed
  qed simp
qed

lemma sub_fence_Nil [simp]: "sub_fence pat [] = []"
  by (simp add: sub_fence.simps)

lemma sub_fence_boundary:
  "x \<notin> set pat \<Longrightarrow> \<not> is_space x \<Longrightarrow>
     sub_fence pat (a @ x # y) = sub_fence pat a @ sub_fence pat (x # y)"
proof (induction pat a rule: sub_fence.induct)
  case (1 pat s)
  note xp = \<open>x \<notin> set pat\<close> and xs = \<open>\<not> is_space x\<close>
  show ?case
  proof (cases s)
    case Nil
    then show ?thesis by simp
  next
    case (Cons c cs)
    show ?thesis
    proof (cases "pat \<noteq> [] \<and> prefix pat s")
      case True
      then have pre: "prefix pat (s @ x # y)" by (simp add: prefix_prefix)
      have len: "length pat \<le> length s" using True by (simp add: prefix_length_le)
      have "sub_fence pat (s @ x # y) =
            sub_fence pat (dropWhile is_space (drop (length pat) (s @ x # y)))"
        using True pre Cons by (subst sub_fence.simps) simp
      also have "\<dots> = sub_fence pat (dropWhile is_space (drop (length pat) s) @ x # y)"
        using len xs by (simp add: dropWhile_mid)
      also have "\<dots> = sub_fence pat (dropWhile is_space (drop (length pat) s)) @ sub_fence pat (x # y)"
        using 1(1)[OF Cons True xp xs] by simp
      also have "sub_fence pat (dropWhile is_space (drop (length pat) s)) = sub_fence pat s"
        using True Cons by (subst (2) sub_fence.simps) simp
      finally show ?thesis .
    next
      case False
      have np: "\<not> (pat \<noteq> [] \<and> prefix pat (s @ x # y))"
      proof
        assume h: "pat \<noteq> [] \<and> prefix pat (s @ x # y)"
        then have "prefix pat (s @ x # y)" by simp
        then have "prefix pat s" using xp by (rule prefix_boundary)
        with h False show False by simp
      qed
      have e1: "sub_fence pat (s @ x # y) = c # sub_fence pat (cs @ x # y)"
        using np Cons by (subst sub_fence.simps) auto
      have e2: "sub_fence pat (cs @ x # y) = sub_fence pat cs @ sub_fence pat (x # y)"
        using 1(2)[OF Cons False xp xs] by simp
      have e3: "sub_fence pat s = c # sub_fence pat cs"
        using False Cons by (subst sub_fence.simps) auto
      show ?thesis by (simp only: e1 e2 e3 append_Cons)
    qed
  qed
qed

lemma sub_fence_keep:
  "f \<notin> set a \<Longrightarrow> sub_fence (f # pat) (a @ b) = a @ sub_fence (f # pat) b"
proof (induction a)
  case (Cons c a)
  then show ?case by (subst sub_fence.simps) auto
qed simp

lemma sub_fence_set: "set (sub_fence pat a) \<subseteq> set a"
proof (induction pat a rule: sub_fence.induct)
  case (1 pat s)
  show ?case
  proof (cases s)
    case Nil
    then show ?thesis by simp
  next
    case (Cons c cs)
    show ?thesis
    proof (cases "pat \<noteq> [] \<and> prefix pat s")
      case True
      have "set (dropWhile is_space (drop (length pat) s)) \<subseteq> set s"
        by (meson set_drop_subset set_dropWhileD subset_iff)
      with 1(1)[OF Cons True] have "set (sub_fence pat (dropWhile is_space (drop (length pat) s))) \<subseteq> set s"
        by blast
      then show ?thesis using True Cons by (subst sub_fence.simps) simp
    next
      case False
      with 1(2)[OF Cons False] Cons show ?thesis
        by (subst sub_fence.simps) auto
    qed
  qed
qed

lemma scan_braces_append:
  "scan_braces d a = Some r \<Longrightarrow> scan_braces d (a @ t) = Some r"
  by (induction d a arbitrary: r rule: scan_braces.induct) (auto split: if_splits)

lemma scan_braces_last:
  "scan_braces d a = Some r \<Longrightarrow> r \<noteq> [] \<and> last r = CHR ''}''"
  by (induction d a arbitrary: r rule: scan_braces.induct) (auto split: if_splits)

lemma extract_json_object_mid:
  assumes "CHR ''{'' \<notin> set a" and "obj = CHR ''{'' # o'" and "scan_braces 0 obj = Some obj"
  shows "extract_json_object (a @ obj @ b) = Some obj"
proof -
  have "dropWhile (\<lambda>c. c \<noteq> CHR ''{'') (a @ obj @ b) = obj @ b"
    using assms(1,2) by (induction a) auto
  then show ?thesis using assms(3) by (simp add: extract_json_object_def scan_braces_append)
qed

lemma is_space_brace [simp]: "\<not> is_space (CHR ''{'')" "\<not> is_space (CHR ''}'')"
  by (simp_all add: is_space_def)

lemma strip_mid:
  assumes "\<not> is_space x" and "\<not> is_space z"
  shows "strip (a @ x # m @ z # b) = dropWhile is_space a @ x # m @ z # rev (dropWhile is_space (rev b))"
proof -
  have "dropWhile is_space (a @ x # m @ z # b) = dropWhile is_space a @ x # m @ z # b"
    using assms(1) by (simp add: dropWhile_mid)
  moreover have "dropWhile is_space (rev (dropWhile is_space a @ x # m @ z # b))
      = dropWhile is_space (rev b) @ z # rev m @ x # rev (dropWhile is_space a)"
    using assms(2) dropWhile_mid[of is_space z "rev b" "rev m @ x # rev (dropWhile is_space a)"]
    by simp
  ultimately show ?thesis by (simp add: strip_def)
qed

lemma strip_single:
  assumes "\<not> is_space x"
  shows "strip (a @ x # b) = dropWhile is_space a @ x # rev (dropWhile is_space (rev b))"
proof -
  have "dropWhile is_space (a @ x # b) = dropWhile is_space a @ x # b"
    using assms(1) by (simp add: dropWhile_mid)
  moreover have "dropWhile is_space (rev (dropWhile is_space a @ x # b))
      = dropWhile is_space (rev b) @ x # rev (dropWhile is_space a)"
    using assms dropWhile_mid[of is_space x "rev b" "rev (dropWhile is_space a)"]
    by simp
  ultimately show ?thesis by (simp add: strip_def)
qed

lemma balanced_object_shape:
  assumes "obj = CHR ''{'' # o'" and "scan_braces 0 obj = Some obj"
  shows "\<exists>m. obj = CHR ''{'' # m @ [CHR ''}'']"
proof -
  from scan_braces_last[OF assms(2)] have l: "last obj = CHR ''}''" by simp
  have "o' \<noteq> []" using assms by auto
  then have "o' = butlast o' @ [last o']" by simp
  moreover have "last o' = CHR ''}''" using l assms(1) \<open>o' \<noteq> []\<close> by simp
  ultimately have "obj = CHR ''{'' # butlast o' @ [CHR ''}'']" using assms(1) by simp
  then show ?thesis by blast
qed

lemma sub_fences_mid:
  assumes "obj = CHR ''{'' # o'" and "CHR ''`'' \<notin> set obj"
  shows "sub_fence ''```'' (sub_fence ''```json'' (a @ obj @ b)) =
         sub_fence ''```'' (sub_fence ''```json'' a) @ obj @ sub_fence ''```'' (sub_fence ''```json'' b)"
proof -
  have k: "\<And>pat' u v. sub_fence (CHR ''`'' # pat') (obj @ v) = obj @ sub_fence (CHR ''`'' # pat') v"
    using assms(2) by (rule sub_fence_keep)
  have bd: "\<And>pat u v. CHR ''{'' \<notin> set pat \<Longrightarrow>
      sub_fence pat (u @ obj @ v) = sub_fence pat u @ sub_fence pat (obj @ v)"
    using sub_fence_boundary[of "CHR ''{''" _ _ "o' @ _"] assms(1) by simp
  have "sub_fence ''```json'' (a @ obj @ b) = sub_fence ''```json'' a @ obj @ sub_fence ''```json'' b"
    using bd[of "''```json''" a b] k[of "''``json''" b] by simp
  moreover have "sub_fence ''```'' (sub_fence ''```json'' a @ obj @ sub_fence ''```json'' b) =
      sub_fence ''```'' (sub_fence ''```json'' a) @ obj @ sub_fence ''```'' (sub_fence ''```json'' b)"
    using bd[of "''```''" "sub_fence ''```json'' a" "sub_fence ''```json'' b"]
      k[of "''``''" "sub_fence ''```json'' b"] by simp
  ultimately show ?thesis by simp
qed

lemma clean_response_mid:
  assumes "strip_think raw = a @ obj @ b"
    and "CHR ''{'' \<notin> set a"
    and "obj = CHR ''{'' # o'"
    and "scan_braces 0 obj = Some obj"
    and "CHR ''`'' \<notin> set obj"
  shows "\<exists>a' b'. clean_response raw = a' @ obj @ b' \<and> CHR ''{'' \<notin> set a'"
proof -
  from balanced_object_shape[OF assms(3,4)] obtain m where m: "obj = CHR ''{'' # m @ [CHR ''}'']"
    by blast
  let ?a2 = "sub_fence ''```'' (sub_fence ''```json'' a)"
  let ?b2 = "sub_fence ''```'' (sub_fence ''```json'' b)"
  have "clean_response raw = strip (?a2 @ obj @ ?b2)"
    using assms(1) sub_fences_mid[OF assms(3,5)] by (simp add: clean_response_def)
  also have "\<dots> = dropWhile is_space ?a2 @ obj @ rev (dropWhile is_space (rev ?b2))"
    using strip_mid[of "CHR ''{''" "CHR ''}''" ?a2 m ?b2] m by simp
  finally have e: "clean_response raw = dropWhile is_space ?a2 @ obj @ rev (dropWhile is_space (rev ?b2))" .
  have "set (dropWhile is_space ?a2) \<subseteq> set a"
    using sub_fence_set[of "''```''" "sub_fence ''```json'' a"] sub_fence_set[of "''```json''" a]
      set_dropWhileD[of _ is_space ?a2] by blast
  with assms(2) have "CHR ''{'' \<notin> set (dropWhile is_space ?a2)" by blast
  with e show ?thesis by blast
qed

lemma clean_response_object:
  assumes "obj = CHR ''{'' # o'"
    and "scan_braces 0 obj = Some obj"
    and "CHR ''`'' \<notin> set obj"
    and "\<not> has_pair obj"
  shows "clean_response obj = obj"
proof -
  from balanced_object_shape[OF assms(1,2)] obtain m where m: "obj = CHR ''{'' # m @ [CHR ''}'']"
    by blast
  have "sub_fence ''```json'' obj = obj" "sub_fence ''```'' obj = obj"
    using sub_fence_keep[of "CHR ''`''" obj "''``json''" "[]"]
      sub_fence_keep[of "CHR ''`''" obj "''``''" "[]"] assms(3) by simp_all
  moreover have "strip obj = obj"
    using strip_mid[of "CHR ''{''" "CHR ''}''" "[]" m "[]"] m by simp
  ultimately show ?thesis
    using strip_think_no_pair[OF assms(4)] by (simp add: clean_response_def)
qed

lemma parse_object_alone:
  assumes "clean_response obj = obj" and "extract_json_object obj = Some obj"
  shows "parse_tool_request loads obj =
     (case try_loads loads obj of Some result \<Rightarrow> result | None \<Rightarrow> None)"
  using assms by (simp add: parse_tool_request_def split: option.splits)

section \<open>The orchestrator\<close>

subsection \<open>Configuration, requests and state\<close>

text \<open>
  The fields of \<^verbatim>\<open>LEAPConfig\<close> that the orchestrator reads. A Python \<^verbatim>\<open>float\<close> that is
  a setting or a measurement is a \<open>real\<close>.
\<close>

record leap_config =
  main_model :: string
  sub_model :: string
  main_temperature :: real
  sub_temperature :: real
  enable_filtering :: bool
  verbose :: bool

text \<open>
  A prompt is the method that builds it together with the values it interpolates; the text
  of the template around them is fixed and left out.
\<close>

datatype prompt =
    PlanningPrompt string string
  | UpdateStatePrompt string string json string
  | FinalAnswerPrompt string string
  | DirectPrompt string
  | FilterPrompt json string

record gen_request =
  model :: string
  prompt :: prompt
  temperature :: real
  max_tokens :: nat

datatype exn = RuntimeError string | TypeError string

record orchestration_metrics =
  phase1_time :: real
  phase2_time :: real
  phase3_time :: real
  total_time :: real
  tool_name :: json
  raw_response_tokens :: nat
  filtered_response_tokens :: nat
  token_reduction :: real

text \<open>
  The orchestrator object. Besides \<^verbatim>\<open>metrics\<close> and \<^verbatim>\<open>state_summary\<close> it carries the record
  of what it did to the outside: the calls of \<^verbatim>\<open>inference.generate\<close> with their outcomes,
  the tool invocations with theirs, and the number of phase durations measured so far.
\<close>

record orchestrator =
  metrics :: orchestration_metrics
  state_summary :: string
  gen_log :: "(gen_request \<times> (string + string)) list"
  tool_log :: "(string \<times> json \<times> (string + json)) list"
  timings :: nat

text \<open>
  The world around the orchestrator. \<open>generate n req\<close> is what the backend answers to the
  \<open>n\<close>-th generation call: a text, or \<open>Inl\<close> the message of the error it raises. A tool
  takes the call's index and the parameters and returns its result, or \<open>Inl\<close> the message
  of the exception it raises (binding the arguments is part of the tool). \<open>duration n\<close> is
  the \<open>n\<close>-th difference of two \<^verbatim>\<open>time.time()\<close> readings. The library functions are
  \<^verbatim>\<open>json.loads\<close>, \<^verbatim>\<open>json.dumps\<close> without and with \<^verbatim>\<open>indent=2\<close>, and \<^verbatim>\<open>str\<close> on a value
  that is not a string.
\<close>

record env =
  config :: leap_config
  tools :: "string \<Rightarrow> (nat \<Rightarrow> json \<Rightarrow> string + json) option"
  generate :: "nat \<Rightarrow> gen_request \<Rightarrow> string + string"
  duration :: "nat \<Rightarrow> real"
  json_loads_fn :: "string \<Rightarrow> json option"
  json_dumps_fn :: "json \<Rightarrow> string"
  json_dumps_indent_fn :: "json \<Rightarrow> string"
  py_str_fn :: "json \<Rightarrow> string"

definition new_orchestrator :: orchestrator where
  "new_orchestrator =
     \<lparr>metrics = \<lparr>phase1_time = 0, phase2_time = 0, phase3_time = 0, total_time = 0,
         tool_name = JStr [], raw_response_tokens = 0, filtered_response_tokens = 0,
         token_reduction = 0\<rparr>,
      state_summary = [], gen_log = [], tool_log = [], timings = 0\<rparr>"

text \<open>\<^verbatim>\<open>OllamaInference.generate\<close>: a failure of the backend is raised as \<^verbatim>\<open>RuntimeError\<close>.\<close>

definition inference_generate ::
  "env \<Rightarrow> gen_request \<Rightarrow> orchestrator \<Rightarrow> (exn + string) \<times> orchestrator" where
  "inference_generate env req st =
     (let res = generate env (length (gen_log st)) req;
          st' = st\<lparr>gen_log := gen_log st @ [(req, res)]\<rparr>
      in case res of
           Inl msg \<Rightarrow> (Inl (RuntimeError (''Ollama inference failed: '' @ msg)), st')
         | Inr text \<Rightarrow> (Inr text, st'))"

text \<open>\<^verbatim>\<open>self.metrics.phaseN_time += time.time() - phaseN_start\<close>\<close>

definition add_phase1_time :: "env \<Rightarrow> orchestrator \<Rightarrow> orchestrator" where
  "add_phase1_time env st =
     st\<lparr>metrics := (metrics st)\<lparr>phase1_time := phase1_time (metrics st) + duration env (timings st)\<rparr>,
        timings := Suc (timings st)\<rparr>"

definition add_phase2_time :: "env \<Rightarrow> orchestrator \<Rightarrow> orchestrator" where
  "add_phase2_time env st =
     st\<lparr>metrics := (metrics st)\<lparr>phase2_time := phase2_time (metrics st) + duration env (timings st)\<rparr>,
        timings := Suc (timings st)\<rparr>"

definition add_phase3_time :: "env \<Rightarrow> orchestrator \<Rightarrow> orchestrator" where
  "add_phase3_time env st =
     st\<lparr>metrics := (metrics st)\<lparr>phase3_time := phase3_time (metrics st) + duration env (timings st)\<rparr>,
        timings := Suc (timings st)\<rparr>"

subsection \<open>Python values\<close>

text \<open>\<^verbatim>\<open>d.get(k, default)\<close>\<close>

definition dict_get :: "dict \<Rightarrow> string \<Rightarrow> json \<Rightarrow> json" where
  "dict_get d k dflt = (case map_of d k of Some v \<Rightarrow> v | None \<Rightarrow> dflt)"

text \<open>Truth value of an object in a condition.\<close>

definition float_nonzero :: "string \<Rightarrow> bool" where
  "float_nonzero s =
     (s = ''nan'' \<or> s = ''inf'' \<or> s = ''-inf'' \<or>
      (\<exists>c \<in> set (takeWhile (\<lambda>c. c \<noteq> CHR ''e'' \<and> c \<noteq> CHR ''E'') s). is_digit c \<and> c \<noteq> CHR ''0''))"

fun truthy :: "json \<Rightarrow> bool" where
  "truthy JNull = False"
| "truthy (JBool b) = b"
| "truthy (JInt i) = (i \<noteq> 0)"
| "truthy (JFloat s) = float_nonzero s"
| "truthy (JStr s) = (s \<noteq> [])"
| "truthy (JArr xs) = (xs \<noteq> [])"
| "truthy (JObj kvs) = (kvs \<noteq> [])"

text \<open>\<^verbatim>\<open>str(x)\<close>: a string is its own text.\<close>

definition str_of :: "env \<Rightarrow> json \<Rightarrow> string" where
  "str_of env v = (case v of JStr s \<Rightarrow> s | _ \<Rightarrow> py_str_fn env v)"

text \<open>\<^verbatim>\<open>json.dumps(x) if isinstance(x, dict) else str(x)\<close>\<close>

definition result_text :: "env \<Rightarrow> json \<Rightarrow> string" where
  "result_text env v = (case v of JObj kvs \<Rightarrow> json_dumps_fn env v | _ \<Rightarrow> str_of env v)"

text \<open>
  \<^verbatim>\<open>k in d\<close> for a dictionary with string keys: a list or a dictionary cannot be hashed,
  any other value that is not a string is no key.
\<close>

definition dict_contains :: "(string \<Rightarrow> bool) \<Rightarrow> json \<Rightarrow> exn + bool" where
  "dict_contains has_key k =
     (case k of
        JStr s \<Rightarrow> Inr (has_key s)
      | JArr xs \<Rightarrow> Inl (TypeError (''unhashable type: 'list'' @ [CHR 0x27]))
      | JObj kvs \<Rightarrow> Inl (TypeError (''unhashable type: 'dict'' @ [CHR 0x27]))
      | _ \<Rightarrow> Inr False)"

text \<open>The items a \<^verbatim>\<open>for\<close> loop over the value visits.\<close>

definition iterate :: "json \<Rightarrow> exn + json list" where
  "iterate v =
     (case v of
        JArr xs \<Rightarrow> Inr xs
      | JStr s \<Rightarrow> Inr (map (\<lambda>c. JStr [c]) s)
      | JObj kvs \<Rightarrow> Inr (map (\<lambda>kv. JStr (fst kv)) kvs)
      | JNull \<Rightarrow> Inl (TypeError (CHR 0x27 # ''NoneType' object is not iterable''))
      | JBool b \<Rightarrow> Inl (TypeError (CHR 0x27 # ''bool' object is not iterable''))
      | JInt i \<Rightarrow> Inl (TypeError (CHR 0x27 # ''int' object is not iterable''))
      | JFloat f \<Rightarrow> Inl (TypeError (CHR 0x27 # ''float' object is not iterable'')))"

subsection \<open>The result filter: \<^verbatim>\<open>_filter_response\<close>\<close>

text \<open>
  \<^verbatim>\<open>re.search(r'[\{\[].*[\}\]]', response, re.DOTALL)\<close>: the match runs from the first
  opening brace or bracket to the last closing one after it.
\<close>

definition search_json :: "string \<Rightarrow> string option" where
  "search_json s =
     (case dropWhile (\<lambda>c. c \<noteq> CHR ''{'' \<and> c \<noteq> CHR ''['') s of
        [] \<Rightarrow> None
      | opener # rest \<Rightarrow>
          (let body = rev (dropWhile (\<lambda>c. c \<noteq> CHR ''}'' \<and> c \<noteq> CHR '']'') (rev rest))
           in if body = [] then None else Some (opener # body)))"

text \<open>
  The fallback loop \<^verbatim>\<open>for field in filter_fields: if field in raw_result: ...\<close> over the
  items of the field list.
\<close>

fun extract_fields :: "dict \<Rightarrow> json list \<Rightarrow> dict \<Rightarrow> exn + dict" where
  "extract_fields raw_result [] filtered = Inr filtered"
| "extract_fields raw_result (field # rest) filtered =
     (case dict_contains (\<lambda>k. map_of raw_result k \<noteq> None) field of
        Inl e \<Rightarrow> Inl e
      | Inr False \<Rightarrow> extract_fields raw_result rest filtered
      | Inr True \<Rightarrow>
          (case field of
             JStr k \<Rightarrow>
               (case map_of raw_result k of
                  Some v \<Rightarrow> extract_fields raw_result rest (dict_set k v filtered)
                | None \<Rightarrow> extract_fields raw_result rest filtered)
           | _ \<Rightarrow> extract_fields raw_result rest filtered))"

definition filter_fallback :: "dict \<Rightarrow> json \<Rightarrow> exn + json" where
  "filter_fallback raw_result filter_fields =
     (case iterate filter_fields of
        Inl e \<Rightarrow> Inl e
      | Inr items \<Rightarrow>
          (case extract_fields raw_result items [] of
             Inl e \<Rightarrow> Inl e
           | Inr filtered \<Rightarrow> Inr (if filtered \<noteq> [] then JObj filtered else JObj raw_result)))"

definition filter_request :: "env \<Rightarrow> json \<Rightarrow> string \<Rightarrow> gen_request" where
  "filter_request env filter_fields raw_json =
     \<lparr>model = sub_model (config env),
      prompt = FilterPrompt filter_fields (take 3000 raw_json),
      temperature = sub_temperature (config env),
      max_tokens = 512\<rparr>"

definition filter_response ::
  "env \<Rightarrow> json \<Rightarrow> json \<Rightarrow> orchestrator \<Rightarrow> (exn + json) \<times> orchestrator" where
  "filter_response env raw_result filter_fields st =
     (case raw_result of
        JStr s \<Rightarrow> (Inr (JObj [(''content'', JStr (take 1000 s))]), st)
      | JObj raw \<Rightarrow>
          (let raw_json = json_dumps_indent_fn env raw_result in
           if length raw_json < 500 then (Inr raw_result, st)
           else
             (case inference_generate env (filter_request env filter_fields raw_json) st of
                (Inl e, st') \<Rightarrow> (Inl e, st')
              | (Inr response, st') \<Rightarrow>
                  (case search_json (strip_think response) of
                     None \<Rightarrow> (filter_fallback raw filter_fields, st')
                   | Some json_match \<Rightarrow>
                       (case json_loads_fn env json_match of
                          Some parsed \<Rightarrow> (Inr parsed, st')
                        | None \<Rightarrow> (filter_fallback raw filter_fields, st')))))
      | _ \<Rightarrow> (Inr (JObj [(''result'', JStr (take 1000 (str_of env raw_result)))]), st))"

subsection \<open>Execution: \<^verbatim>\<open>_phase2_execution\<close>\<close>

text \<open>\<^verbatim>\<open>tool_func(**params) if params else tool_func()\<close>: the parameters the tool is called with.\<close>

definition call_params :: "json \<Rightarrow> json" where
  "call_params params = (if truthy params then params else JObj [])"

definition error_result :: "env \<Rightarrow> string \<Rightarrow> string" where
  "error_result env msg = json_dumps_fn env (JObj [(''error'', JStr msg)])"

text \<open>The metrics bookkeeping at the end of the phase.\<close>

definition track_sizes :: "nat \<Rightarrow> nat \<Rightarrow> orchestrator \<Rightarrow> orchestrator" where
  "track_sizes raw_len filtered_len st =
     (let m = (metrics st)\<lparr>raw_response_tokens := raw_len div 4,
                            filtered_response_tokens := filtered_len div 4\<rparr>;
          m' = (if raw_response_tokens m > 0
                then m\<lparr>token_reduction :=
                        (1 - real (filtered_response_tokens m) / real (raw_response_tokens m)) * 100\<rparr>
                else m)
      in st\<lparr>metrics := m'\<rparr>)"

definition phase2_execution ::
  "env \<Rightarrow> dict \<Rightarrow> orchestrator \<Rightarrow> (exn + string) \<times> orchestrator" where
  "phase2_execution env tool_request st =
     (let tool_name = dict_get tool_request ''tool'' JNull;
          params = dict_get tool_request ''params'' (JObj []);
          filter_fields = dict_get tool_request ''filter'' (JArr []);
          st = st\<lparr>metrics := (metrics st)\<lparr>tool_name := tool_name\<rparr>\<rparr>
      in case dict_contains (\<lambda>k. tools env k \<noteq> None) tool_name of
           Inl e \<Rightarrow> (Inl e, st)
         | Inr False \<Rightarrow> (Inr (error_result env (''Unknown tool: '' @ str_of env tool_name)), st)
         | Inr True \<Rightarrow>
             (case tool_name of
                JStr name \<Rightarrow>
                  (case tools env name of
                     None \<Rightarrow> (Inr (error_result env (''Unknown tool: '' @ str_of env tool_name)), st)
                   | Some tool_func \<Rightarrow>
                       (let outcome = tool_func (length (tool_log st)) (call_params params);
                            st = st\<lparr>tool_log := tool_log st @ [(name, call_params params, outcome)]\<rparr>
                        in case outcome of
                             Inl msg \<Rightarrow> (Inr (error_result env msg), st)
                           | Inr raw_result \<Rightarrow>
                               (let raw_json = result_text env raw_result in
                                case (if enable_filtering (config env) \<and> truthy filter_fields
                                      then filter_response env raw_result filter_fields st
                                      else (Inr raw_result, st)) of
                                  (Inl e, st') \<Rightarrow>
                                    (Inl e, st'\<lparr>metrics := (metrics st')
                                               \<lparr>raw_response_tokens := length raw_json div 4\<rparr>\<rparr>)
                                | (Inr filtered, st') \<Rightarrow>
                                    (let filtered_json = result_text env filtered
                                     in (Inr filtered_json,
                                         track_sizes (length raw_json) (length filtered_json) st')))))
              | _ \<Rightarrow> (Inr (error_result env (''Unknown tool: '' @ str_of env tool_name)), st)))"

subsection \<open>The calls to the planning model\<close>

text \<open>The generation requests of the planning model, one per calling method.\<close>

definition planning_request :: "env \<Rightarrow> string \<Rightarrow> orchestrator \<Rightarrow> gen_request" where
  "planning_request env query st =
     \<lparr>model = main_model (config env),
      prompt = PlanningPrompt query (state_summary st),
      temperature = 0.5,
      max_tokens = 300\<rparr>"

definition update_state_request ::
  "env \<Rightarrow> string \<Rightarrow> dict \<Rightarrow> string \<Rightarrow> orchestrator \<Rightarrow> gen_request" where
  "update_state_request env query tool_request tool_result st =
     \<lparr>model = main_model (config env),
      prompt = UpdateStatePrompt query (state_summary st)
                 (dict_get tool_request ''tool'' JNull) (take 1000 tool_result),
      temperature = 0.5,
      max_tokens = 512\<rparr>"

definition final_answer_request :: "env \<Rightarrow> string \<Rightarrow> orchestrator \<Rightarrow> gen_request" where
  "final_answer_request env query st =
     \<lparr>model = main_model (config env),
      prompt = FinalAnswerPrompt query (state_summary st),
      temperature = main_temperature (config env),
      max_tokens = 1024\<rparr>"

definition direct_request :: "env \<Rightarrow> string \<Rightarrow> real \<Rightarrow> gen_request" where
  "direct_request env query temp =
     \<lparr>model = main_model (config env), prompt = DirectPrompt query,
      temperature = temp, max_tokens = 2048\<rparr>"

definition phase1_planning ::
  "env \<Rightarrow> string \<Rightarrow> orchestrator \<Rightarrow> (exn + dict option) \<times> orchestrator" where
  "phase1_planning env query st =
     (case inference_generate env (planning_request env query st) st of
        (Inl e, st') \<Rightarrow> (Inl e, st')
      | (Inr response, st') \<Rightarrow> (Inr (parse_tool_request (json_loads_fn env) response), st'))"

definition phase3_update_state ::
  "env \<Rightarrow> string \<Rightarrow> dict \<Rightarrow> string \<Rightarrow> orchestrator \<Rightarrow> (exn + unit) \<times> orchestrator" where
  "phase3_update_state env query tool_request tool_result st =
     (case inference_generate env (update_state_request env query tool_request tool_result st) st of
        (Inl e, st') \<Rightarrow> (Inl e, st')
      | (Inr response, st') \<Rightarrow> (Inr (), st'\<lparr>state_summary := strip (strip_think response)\<rparr>))"

definition generate_final_answer ::
  "env \<Rightarrow> string \<Rightarrow> orchestrator \<Rightarrow> (exn + string) \<times> orchestrator" where
  "generate_final_answer env query st =
     inference_generate env (final_answer_request env query st) st"

definition direct_response ::
  "env \<Rightarrow> string \<Rightarrow> orchestrator \<Rightarrow> (exn + string) \<times> orchestrator" where
  "direct_response env query st =
     (case inference_generate env (direct_request env query (main_temperature (config env))) st of
        (Inl e, st') \<Rightarrow> (Inl e, st')
      | (Inr response, st') \<Rightarrow>
          (let response = strip (strip_think response) in
           if response = [] \<or> length response < 10 then
             (case inference_generate env (direct_request env query 0.8) st' of
                (Inl e, st'') \<Rightarrow> (Inl e, st'')
              | (Inr response, st'') \<Rightarrow> (Inr (strip (strip_think response)), st''))
           else (Inr response, st')))"

subsection \<open>The turn loop: \<^verbatim>\<open>run\<close>\<close>

text \<open>
  One pass through the body of the \<^verbatim>\<open>while\<close> loop ends in one of three ways: the loop
  goes on to the next turn, it is left by \<^verbatim>\<open>break\<close>, or \<^verbatim>\<open>run\<close> itself ends, with
  the value of a \<^verbatim>\<open>return\<close> or with an exception that nothing catches.
\<close>

datatype turn_result =
    Continue orchestrator
  | Break orchestrator
  | Return "exn + string" orchestrator

definition turn :: "env \<Rightarrow> string \<Rightarrow> int \<Rightarrow> orchestrator \<Rightarrow> turn_result" where
  "turn env query current_turn st =
     (case phase1_planning env query st of
        (Inl e, st1) \<Rightarrow> Return (Inl e) st1
      | (Inr tool_request, st1) \<Rightarrow>
          (let st1 = add_phase1_time env st1 in
           case tool_request of
             None \<Rightarrow>
               if current_turn = 1
               then (case direct_response env query st1 of (r, st') \<Rightarrow> Return r st')
               else Break st1
           | Some request \<Rightarrow>
               (case phase2_execution env request st1 of
                  (Inl e, st2) \<Rightarrow> Return (Inl e) st2
                | (Inr filtered_response, st2) \<Rightarrow>
                    (let st2 = add_phase2_time env st2 in
                     case phase3_update_state env query request filtered_response st2 of
                       (Inl e, st3) \<Rightarrow> Return (Inl e) st3
                     | (Inr u, st3) \<Rightarrow> Continue (add_phase3_time env st3)))))"

function run_loop ::
  "env \<Rightarrow> string \<Rightarrow> int \<Rightarrow> int \<Rightarrow> orchestrator \<Rightarrow> (exn + string) \<times> orchestrator" where
  "run_loop env query max_turns current_turn st =
     (if current_turn \<le> max_turns then
        (case turn env query current_turn st of
           Continue st' \<Rightarrow> run_loop env query max_turns (current_turn + 1) st'
         | Break st' \<Rightarrow> generate_final_answer env query st'
         | Return r st' \<Rightarrow> (r, st'))
      else generate_final_answer env query st)"
  by pat_completeness auto
termination
  by (relation "measure (\<lambda>(env, query, max_turns, current_turn, st). nat (max_turns + 1 - current_turn))")
    auto

declare run_loop.simps [simp del]

definition run :: "env \<Rightarrow> string \<Rightarrow> int \<Rightarrow> orchestrator \<Rightarrow> (exn + string) \<times> orchestrator" where
  "run env query max_turns st =
     run_loop env query max_turns 1 (st\<lparr>state_summary := ''No actions taken yet.''\<rparr>)"

text \<open>
  \<^verbatim>\<open>get_metrics\<close>. The report carries the reduction as the number that the source
  formats as a percentage.
\<close>

record metrics_report =
  report_phase1_time :: real
  report_phase2_time :: real
  report_phase3_time :: real
  report_total_time :: real
  report_tool :: json
  report_raw_tokens :: nat
  report_filtered_tokens :: nat
  report_token_reduction :: real

definition get_metrics :: "orchestrator \<Rightarrow> metrics_report" where
  "get_metrics st =
     \<lparr>report_phase1_time = phase1_time (metrics st),
      report_phase2_time = phase2_time (metrics st),
      report_phase3_time = phase3_time (metrics st),
      report_total_time = total_time (metrics st),
      report_tool = tool_name (metrics st),
      report_raw_tokens = raw_response_tokens (metrics st),
      report_filtered_tokens = filtered_response_tokens (metrics st),
      report_token_reduction = token_reduction (metrics st)\<rparr>"

section \<open>The library functions on JSON values\<close>

text \<open>
  Python's \<^verbatim>\<open>json.dumps\<close> and \<^verbatim>\<open>str\<close> on the values of type \<open>json\<close>, for running the
  orchestrator on concrete inputs.
\<close>

fun join :: "string \<Rightarrow> string list \<Rightarrow> string" where
  "join sep [] = []"
| "join sep [x] = x"
| "join sep (x # y # ys) = x @ sep @ join sep (y # ys)"

fun show_nat :: "nat \<Rightarrow> string" where
  "show_nat n = (if n < 10 then [char_of (48 + n)] else show_nat (n div 10) @ [char_of (48 + n mod 10)])"

declare show_nat.simps [simp del]

definition show_int :: "int \<Rightarrow> string" where
  "show_int i = (if i < 0 then CHR ''-'' # show_nat (nat (- i)) else show_nat (nat i))"

definition hex_digit :: "nat \<Rightarrow> char" where
  "hex_digit k = (if k < 10 then char_of (48 + k) else char_of (87 + k))"

definition hex2 :: "nat \<Rightarrow> string" where
  "hex2 n = [hex_digit (n div 16 mod 16), hex_digit (n mod 16)]"

text \<open>The escapes of \<^verbatim>\<open>json.dumps\<close> with \<^verbatim>\<open>ensure_ascii=True\<close>.\<close>

definition json_escape :: "char \<Rightarrow> string" where
  \<open>json_escape c =
     (if c = CHR ''"'' then [CHR 0x5C, CHR ''"'']
      else if c = CHR 0x5C then [CHR 0x5C, CHR 0x5C]
      else if c = CHR 0x0A then [CHR 0x5C, CHR ''n'']
      else if c = CHR 0x0D then [CHR 0x5C, CHR ''r'']
      else if c = CHR 0x09 then [CHR 0x5C, CHR ''t'']
      else if c = CHR 0x08 then [CHR 0x5C, CHR ''b'']
      else if c = CHR 0x0C then [CHR 0x5C, CHR ''f'']
      else if (of_char c :: nat) < 32 \<or> (of_char c :: nat) > 126
        then CHR 0x5C # ''u00'' @ hex2 (of_char c)
      else [c])\<close>

definition json_quote :: "string \<Rightarrow> string" where
  \<open>json_quote s = CHR ''"'' # concat (map json_escape s) @ [CHR ''"'']\<close>

definition json_float :: "string \<Rightarrow> string" where
  "json_float s =
     (if s = ''nan'' then ''NaN'' else if s = ''inf'' then ''Infinity''
      else if s = ''-inf'' then ''-Infinity'' else s)"

fun json_dumps :: "json \<Rightarrow> string"
  and dumps_items :: "json list \<Rightarrow> string list"
  and dumps_members :: "(string \<times> json) list \<Rightarrow> string list" where
  "json_dumps JNull = ''null''"
| "json_dumps (JBool b) = (if b then ''true'' else ''false'')"
| "json_dumps (JInt i) = show_int i"
| "json_dumps (JFloat s) = json_float s"
| "json_dumps (JStr s) = json_quote s"
| "json_dumps (JArr xs) = ''['' @ join '', '' (dumps_items xs) @ '']''"
| "json_dumps (JObj kvs) = ''{'' @ join '', '' (dumps_members kvs) @ ''}''"
| "dumps_items [] = []"
| "dumps_items (x # xs) = json_dumps x # dumps_items xs"
| "dumps_members [] = []"
| "dumps_members (kv # kvs) = (json_quote (fst kv) @ '': '' @ json_dumps (snd kv)) # dumps_members kvs"

definition newline_indent :: "nat \<Rightarrow> string" where
  "newline_indent level = CHR 0x0A # replicate (2 * level) (CHR '' '')"

fun dumps_indent_at :: "nat \<Rightarrow> json \<Rightarrow> string"
  and indent_items :: "nat \<Rightarrow> json list \<Rightarrow> string list"
  and indent_members :: "nat \<Rightarrow> (string \<times> json) list \<Rightarrow> string list" where
  "dumps_indent_at level (JArr xs) =
     (if xs = [] then ''[]''
      else ''['' @ newline_indent (Suc level)
           @ join ('','' @ newline_indent (Suc level)) (indent_items (Suc level) xs)
           @ newline_indent level @ '']'')"
| "dumps_indent_at level (JObj kvs) =
     (if kvs = [] then ''{}''
      else ''{'' @ newline_indent (Suc level)
           @ join ('','' @ newline_indent (Suc level)) (indent_members (Suc level) kvs)
           @ newline_indent level @ ''}'')"
| "dumps_indent_at level JNull = ''null''"
| "dumps_indent_at level (JBool b) = (if b then ''true'' else ''false'')"
| "dumps_indent_at level (JInt i) = show_int i"
| "dumps_indent_at level (JFloat s) = json_float s"
| "dumps_indent_at level (JStr s) = json_quote s"
| "indent_items level [] = []"
| "indent_items level (x # xs) = dumps_indent_at level x # indent_items level xs"
| "indent_members level [] = []"
| "indent_members level (kv # kvs) =
     (json_quote (fst kv) @ '': '' @ dumps_indent_at level (snd kv)) # indent_members level kvs"

definition json_dumps_indent :: "json \<Rightarrow> string" where
  "json_dumps_indent v = dumps_indent_at 0 v"

text \<open>\<^verbatim>\<open>repr\<close> of a string, and with it \<^verbatim>\<open>str\<close> of the other values.\<close>

definition py_printable :: "char \<Rightarrow> bool" where
  "py_printable c =
     (let n = (of_char c :: nat) in (32 \<le> n \<and> n \<le> 126) \<or> (161 \<le> n \<and> n \<noteq> 173))"

definition repr_escape :: "char \<Rightarrow> char \<Rightarrow> string" where
  "repr_escape quote c =
     (if c = quote \<or> c = CHR 0x5C then [CHR 0x5C, c]
      else if c = CHR 0x0A then [CHR 0x5C, CHR ''n'']
      else if c = CHR 0x0D then [CHR 0x5C, CHR ''r'']
      else if c = CHR 0x09 then [CHR 0x5C, CHR ''t'']
      else if py_printable c then [c]
      else CHR 0x5C # CHR ''x'' # hex2 (of_char c))"

definition repr_str :: "string \<Rightarrow> string" where
  \<open>repr_str s =
     (let quote = (if CHR 0x27 \<in> set s \<and> CHR ''"'' \<notin> set s then CHR ''"'' else CHR 0x27)
      in quote # concat (map (repr_escape quote) s) @ [quote])\<close>

fun py_repr :: "json \<Rightarrow> string"
  and repr_items :: "json list \<Rightarrow> string list"
  and repr_members :: "(string \<times> json) list \<Rightarrow> string list" where
  "py_repr JNull = ''None''"
| "py_repr (JBool b) = (if b then ''True'' else ''False'')"
| "py_repr (JInt i) = show_int i"
| "py_repr (JFloat s) = s"
| "py_repr (JStr s) = repr_str s"
| "py_repr (JArr xs) = ''['' @ join '', '' (repr_items xs) @ '']''"
| "py_repr (JObj kvs) = ''{'' @ join '', '' (repr_members kvs) @ ''}''"
| "repr_items [] = []"
| "repr_items (x # xs) = py_repr x # repr_items xs"
| "repr_members [] = []"
| "repr_members (kv # kvs) = (repr_str (fst kv) @ '': '' @ py_repr (snd kv)) # repr_members kvs"

section \<open>A concrete world\<close>

text \<open>
  The default \<^verbatim>\<open>LEAPConfig()\<close>, and the world in which the library functions are the ones
  defined above and every measured duration is one second; the tool registry and the
  generation backend are given.
\<close>

definition default_config :: leap_config where
  "default_config =
     \<lparr>main_model = ''qwen3:1.7b'', sub_model = ''gemma3:1b'',
      main_temperature = 0.3, sub_temperature = 0,
      enable_filtering = True, verbose = False\<rparr>"

definition library_env ::
  "(string \<Rightarrow> (nat \<Rightarrow> json \<Rightarrow> string + json) option) \<Rightarrow> (nat \<Rightarrow> gen_request \<Rightarrow> string + string) \<Rightarrow> env" where
  "library_env registry backend =
     \<lparr>config = default_config, tools = registry, generate = backend, duration = (\<lambda>n. 1),
      json_loads_fn = json_loads, json_dumps_fn = json_dumps,
      json_dumps_indent_fn = json_dumps_indent, py_str_fn = py_repr\<rparr>"

text \<open>The result of \<^verbatim>\<open>calculate\<close> in the specification's scenario, and a large file result.\<close>

definition calculate_result :: dict where
  "calculate_result =
     [(''expression'', JStr ''250 * 0.15''), (''result'', JFloat ''37.5''), (''type'', JStr ''float'')]"


text \<open>The specification's example of a tool request inside a fenced block after prose.\<close>

definition spec_example_object :: string where
  \<open>spec_example_object = ''{"tool": "read_file", "params": {"path": "a.txt"}}''\<close>

definition spec_example_prose :: string where
  \<open>spec_example_prose = ''sure, here:'' @ [CHR 0x0A] @ ''```json'' @ [CHR 0x0A]\<close>

definition spec_example_close :: string where
  \<open>spec_example_close = [CHR 0x0A] @ ''```''\<close>

section \<open>Observing a run\<close>

text \<open>
  The planning calls among the generation calls made so far, and the outcome of the latest
  of them.
\<close>

definition is_planning :: "gen_request \<times> (string + string) \<Rightarrow> bool" where
  "is_planning entry = (case prompt (fst entry) of PlanningPrompt q s \<Rightarrow> True | _ \<Rightarrow> False)"

definition planning_log :: "orchestrator \<Rightarrow> (gen_request \<times> (string + string)) list" where
  "planning_log st = filter is_planning (gen_log st)"

definition planning_calls :: "orchestrator \<Rightarrow> nat" where
  "planning_calls st = length (planning_log st)"

definition last_planning_reply :: "orchestrator \<Rightarrow> (string + string) option" where
  "last_planning_reply st =
     (if planning_log st = [] then None else Some (snd (last (planning_log st))))"

text \<open>
  The states in which the loop condition of \<^verbatim>\<open>run\<close> is tested, with the value of
  \<^verbatim>\<open>current_turn\<close> at that moment.
\<close>

inductive loop_state :: "env \<Rightarrow> string \<Rightarrow> int \<Rightarrow> orchestrator \<Rightarrow> int \<Rightarrow> orchestrator \<Rightarrow> bool"
  for env :: env and query :: string and max_turns :: int and st0 :: orchestrator where
  loop_entry: "loop_state env query max_turns st0 1 (st0\<lparr>state_summary := ''No actions taken yet.''\<rparr>)"
| loop_next: "loop_state env query max_turns st0 current_turn st \<Longrightarrow> current_turn \<le> max_turns \<Longrightarrow>
     turn env query current_turn st = Continue st' \<Longrightarrow>
     loop_state env query max_turns st0 (current_turn + 1) st'"

code_pred loop_state .

text \<open>A sequence of \<^verbatim>\<open>run\<close> calls on one orchestrator, whatever each call returns or raises.\<close>

fun runs :: "env \<Rightarrow> (string \<times> int) list \<Rightarrow> orchestrator \<Rightarrow> orchestrator" where
  "runs env [] st = st"
| "runs env (call # calls) st = runs env calls (snd (run env (fst call) (snd call) st))"

text \<open>
  Two backends: one whose planner declares completion at once, and one whose planner
  asks for the tool \<^verbatim>\<open>does_not_exist\<close> in every turn.
\<close>

definition finishing_backend :: "nat \<Rightarrow> gen_request \<Rightarrow> string + string" where
  \<open>finishing_backend n req =
     (case prompt req of
        PlanningPrompt q s \<Rightarrow> Inr ''{"tool": null}''
      | _ \<Rightarrow> Inr ''Hello! How can I help?'')\<close>

definition stubborn_backend :: "nat \<Rightarrow> gen_request \<Rightarrow> string + string" where
  \<open>stubborn_backend n req =
     (case prompt req of
        PlanningPrompt q s \<Rightarrow> Inr ''{"tool": "does_not_exist"}''
      | UpdateStatePrompt q s t r \<Rightarrow> Inr ''The tool call failed.''
      | _ \<Rightarrow> Inr ''I could not finish.'')\<close>

definition list_tool_backend :: "nat \<Rightarrow> gen_request \<Rightarrow> string + string" where
  \<open>list_tool_backend n req =
     (case prompt req of
        PlanningPrompt q s \<Rightarrow> Inr ''{"tool": ["read_file"]}''
      | _ \<Rightarrow> Inr ''Hello! How can I help?'')\<close>

text \<open>A registry whose only tool, \<^verbatim>\<open>calculate\<close>, raises.\<close>

definition failing_registry :: "string \<Rightarrow> (nat \<Rightarrow> json \<Rightarrow> string + json) option" where
  "failing_registry name =
     (if name = ''calculate'' then Some (\<lambda>n params. Inl ''division by zero'') else None)"

section \<open>Facts about the result filter\<close>





section \<open>Facts about the phases and the loop\<close>

text \<open>What an operation leaves alone: the planning calls made, the total time, the tool log.\<close>

definition quiet :: "orchestrator \<Rightarrow> orchestrator \<Rightarrow> bool" where
  "quiet st st' \<longleftrightarrow>
     planning_log st' = planning_log st \<and> total_time (metrics st') = total_time (metrics st)"

lemma quiet_refl [simp]: "quiet st st"
  by (simp add: quiet_def)

lemma quiet_trans: "quiet a b \<Longrightarrow> quiet b c \<Longrightarrow> quiet a c"
  by (simp add: quiet_def)

lemma quiet_add_time [simp]:
  "quiet st (add_phase1_time env st)" "quiet st (add_phase2_time env st)"
  "quiet st (add_phase3_time env st)"
  by (simp_all add: quiet_def planning_log_def add_phase1_time_def add_phase2_time_def
      add_phase3_time_def)

lemma quiet_track_sizes [simp]: "quiet st (track_sizes a b st)"
  by (simp add: quiet_def planning_log_def track_sizes_def Let_def)

lemma inference_generate_log:
  "gen_log (snd (inference_generate env req st)) =
     gen_log st @ [(req, generate env (length (gen_log st)) req)]"
  by (simp add: inference_generate_def Let_def split: sum.splits)

lemma inference_generate_metrics:
  "metrics (snd (inference_generate env req st)) = metrics st"
  by (simp add: inference_generate_def Let_def split: sum.splits)

lemma inference_generate_quiet:
  "\<not> is_planning (req, generate env (length (gen_log st)) req) \<Longrightarrow>
     quiet st (snd (inference_generate env req st))"
  by (simp add: quiet_def planning_log_def inference_generate_log inference_generate_metrics)

lemma not_planning [simp]:
  "\<not> is_planning (filter_request env ff rj, out)"
  "\<not> is_planning (update_state_request env q tr res st, out)"
  "\<not> is_planning (final_answer_request env q st, out)"
  "\<not> is_planning (direct_request env q temp, out)"
  "is_planning (planning_request env q st, out)"
  by (simp_all add: is_planning_def filter_request_def update_state_request_def
      final_answer_request_def direct_request_def planning_request_def)

lemma filter_response_quiet: "quiet st (snd (filter_response env raw ff st))"
proof -
  let ?req = "filter_request env ff (json_dumps_indent_fn env raw)"
  have g: "quiet st (snd (inference_generate env ?req st))"
    by (rule inference_generate_quiet) simp
  show ?thesis
    using g
    by (cases "inference_generate env ?req st")
       (auto simp: filter_response_def Let_def split: json.splits sum.splits option.splits)
qed

lemma phase3_quiet: "quiet st (snd (phase3_update_state env q tr res st))"
proof -
  let ?req = "update_state_request env q tr res st"
  have g: "quiet st (snd (inference_generate env ?req st))"
    by (rule inference_generate_quiet) simp
  then show ?thesis
    by (cases "inference_generate env ?req st")
       (auto simp: phase3_update_state_def quiet_def planning_log_def split: sum.splits)
qed

lemma final_answer_quiet: "quiet st (snd (generate_final_answer env q st))"
  unfolding generate_final_answer_def by (rule inference_generate_quiet) simp

lemma direct_response_quiet: "quiet st (snd (direct_response env q st))"
proof -
  let ?r1 = "direct_request env q (main_temperature (config env))"
  let ?r2 = "direct_request env q 0.8"
  obtain a st1 where g1: "inference_generate env ?r1 st = (a, st1)" by (cases "inference_generate env ?r1 st")
  have q1: "quiet st st1" using inference_generate_quiet[of ?r1 env st] g1 by simp
  obtain b st2 where g2: "inference_generate env ?r2 st1 = (b, st2)" by (cases "inference_generate env ?r2 st1")
  have q2: "quiet st1 st2" using inference_generate_quiet[of ?r2 env st1] g2 by simp
  from q1 q2 have q12: "quiet st st2" by (rule quiet_trans)
  show ?thesis
    using g1 g2 q1 q12
    by (auto simp: direct_response_def Let_def split: sum.splits)
qed

lemma quiet_tool_name [simp]:
  "quiet st (st\<lparr>metrics := (metrics st)\<lparr>tool_name := t\<rparr>\<rparr>)"
  "quiet st (st\<lparr>metrics := (metrics st)\<lparr>raw_response_tokens := n\<rparr>\<rparr>)"
  "quiet st (st\<lparr>tool_log := l\<rparr>)"
  by (simp_all add: quiet_def planning_log_def)

lemma planning_log_upd [simp]:
  "planning_log (st\<lparr>metrics := m\<rparr>) = planning_log st"
  "planning_log (st\<lparr>tool_log := l\<rparr>) = planning_log st"
  "planning_log (st\<lparr>state_summary := s\<rparr>) = planning_log st"
  "planning_log (track_sizes a b st) = planning_log st"
  by (simp_all add: planning_log_def track_sizes_def Let_def)

lemma total_time_track_sizes [simp]:
  "total_time (metrics (track_sizes a b st)) = total_time (metrics st)"
  by (simp add: track_sizes_def Let_def)

lemma filter_response_quietD:
  "filter_response env raw ff st = (r, st') \<Longrightarrow>
     planning_log st' = planning_log st \<and> total_time (metrics st') = total_time (metrics st)"
  using filter_response_quiet[of st env raw ff] by (simp add: quiet_def)

lemma phase2_quiet: "quiet st (snd (phase2_execution env req st))"
  unfolding quiet_def phase2_execution_def Let_def
  by (auto split: sum.splits bool.splits json.splits option.splits prod.splits
      dest!: filter_response_quietD)

lemma phase1_planning_log:
  "planning_log (snd (phase1_planning env q st)) =
     planning_log st @ [(planning_request env q st, generate env (length (gen_log st)) (planning_request env q st))]"
  by (cases "inference_generate env (planning_request env q st) st")
     (use inference_generate_log[of env "planning_request env q st" st] in
       \<open>auto simp: phase1_planning_def planning_log_def split: sum.splits\<close>)

lemma phase1_planning_metrics:
  "metrics (snd (phase1_planning env q st)) = metrics st"
  by (cases "inference_generate env (planning_request env q st) st")
     (use inference_generate_metrics[of env "planning_request env q st" st] in
       \<open>auto simp: phase1_planning_def split: sum.splits\<close>)

lemma phase1_planning_result:
  "fst (phase1_planning env q st) =
     (case generate env (length (gen_log st)) (planning_request env q st) of
        Inl msg \<Rightarrow> Inl (RuntimeError (''Ollama inference failed: '' @ msg))
      | Inr reply \<Rightarrow> Inr (parse_tool_request (json_loads_fn env) reply))"
  by (simp add: phase1_planning_def inference_generate_def Let_def split: sum.splits)

definition planning_entry :: "env \<Rightarrow> string \<Rightarrow> orchestrator \<Rightarrow> gen_request \<times> (string + string)" where
  "planning_entry env q st =
     (planning_request env q st, generate env (length (gen_log st)) (planning_request env q st))"

definition finish_reply :: "env \<Rightarrow> string + string \<Rightarrow> bool" where
  "finish_reply env out =
     (case out of Inr reply \<Rightarrow> parse_tool_request (json_loads_fn env) reply = None | Inl msg \<Rightarrow> False)"

lemma quietD:
  "quiet a b \<Longrightarrow> planning_log b = planning_log a \<and> total_time (metrics b) = total_time (metrics a)"
  by (simp add: quiet_def)

lemma turn_effect:
  "turn env q t st = res \<Longrightarrow>
     (case res of
        Continue s \<Rightarrow>
          planning_log s = planning_log st @ [planning_entry env q st] \<and>
          total_time (metrics s) = total_time (metrics st)
      | Break s \<Rightarrow>
          planning_log s = planning_log st @ [planning_entry env q st] \<and>
          total_time (metrics s) = total_time (metrics st) \<and>
          finish_reply env (snd (planning_entry env q st))
      | Return r s \<Rightarrow>
          planning_log s = planning_log st @ [planning_entry env q st] \<and>
          total_time (metrics s) = total_time (metrics st) \<and>
          ((\<exists>e. r = Inl e) \<or> finish_reply env (snd (planning_entry env q st))))"
proof -
  assume "turn env q t st = res"
  then have res: "res = turn env q t st" by simp
  obtain r1 st1 where p1: "phase1_planning env q st = (r1, st1)"
    by (cases "phase1_planning env q st")
  have l1: "planning_log st1 = planning_log st @ [planning_entry env q st]"
    using phase1_planning_log[of env q st] p1 by (simp add: planning_entry_def)
  have m1: "total_time (metrics st1) = total_time (metrics st)"
    using phase1_planning_metrics[of env q st] p1 by simp
  have r1: "r1 = (case snd (planning_entry env q st) of
        Inl msg \<Rightarrow> Inl (RuntimeError (''Ollama inference failed: '' @ msg))
      | Inr reply \<Rightarrow> Inr (parse_tool_request (json_loads_fn env) reply))"
    using phase1_planning_result[of env q st] p1 by (simp add: planning_entry_def)
  let ?s1 = "add_phase1_time env st1"
  have q1: "planning_log ?s1 = planning_log st1" "total_time (metrics ?s1) = total_time (metrics st1)"
    using quietD[OF quiet_add_time(1)[of st1 env]] by simp_all
  show ?thesis
  proof (cases r1)
    case (Inl e)
    with res p1 l1 m1 show ?thesis by (simp add: turn_def)
  next
    case (Inr tool_request)
    show ?thesis
    proof (cases tool_request)
      case None
      then have fin: "finish_reply env (snd (planning_entry env q st))"
        using r1 Inr by (auto simp: finish_reply_def split: sum.splits)
      obtain r st' where d: "direct_response env q ?s1 = (r, st')"
        by (cases "direct_response env q ?s1")
      have "planning_log st' = planning_log ?s1 \<and> total_time (metrics st') = total_time (metrics ?s1)"
        using quietD[OF direct_response_quiet[of ?s1 env q]] d by simp
      with res p1 l1 m1 q1 Inr None fin d show ?thesis
        by (auto simp: turn_def Let_def)
    next
      case (Some request)
      obtain r2 st2 where p2: "phase2_execution env request ?s1 = (r2, st2)"
        by (cases "phase2_execution env request ?s1")
      have e2: "planning_log st2 = planning_log ?s1 \<and> total_time (metrics st2) = total_time (metrics ?s1)"
        using quietD[OF phase2_quiet[of ?s1 env request]] p2 by simp
      show ?thesis
      proof (cases r2)
        case (Inl e)
        with res p1 p2 l1 m1 q1 e2 Inr Some show ?thesis by (simp add: turn_def Let_def)
      next
        case (Inr filtered_response)
        let ?s2 = "add_phase2_time env st2"
        have q2: "planning_log ?s2 = planning_log st2" "total_time (metrics ?s2) = total_time (metrics st2)"
          using quietD[OF quiet_add_time(2)[of st2 env]] by simp_all
        obtain r3 st3 where p3: "phase3_update_state env q request filtered_response ?s2 = (r3, st3)"
          by (cases "phase3_update_state env q request filtered_response ?s2")
        have e3: "planning_log st3 = planning_log ?s2 \<and> total_time (metrics st3) = total_time (metrics ?s2)"
          using quietD[OF phase3_quiet[of ?s2 env q request filtered_response]] p3 by simp
        have q3: "planning_log (add_phase3_time env st3) = planning_log st3"
          "total_time (metrics (add_phase3_time env st3)) = total_time (metrics st3)"
          using quietD[OF quiet_add_time(3)[of st3 env]] by simp_all
        from res p1 p2 p3 l1 m1 q1 e2 q2 e3 q3 \<open>r1 = Inr tool_request\<close> Some Inr show ?thesis
          by (cases r3) (auto simp: turn_def Let_def)
      qed
    qed
  qed
qed

lemma final_answer_effect:
  "generate_final_answer env q st = (r, st') \<Longrightarrow>
     planning_log st' = planning_log st \<and> total_time (metrics st') = total_time (metrics st)"
  using quietD[OF final_answer_quiet[of st env q]] by simp

lemma run_loop_effect:
  "run_loop env q N t st = (r, st') \<Longrightarrow>
     total_time (metrics st') = total_time (metrics st) \<and>
     (\<exists>new. planning_log st' = planning_log st @ new \<and> length new \<le> nat (N + 1 - t) \<and>
        ((\<exists>e. r = Inl e) \<or>
         (new \<noteq> [] \<and> finish_reply env (snd (last new))) \<or>
         length new = nat (N + 1 - t)))"
proof (induction env q N t st arbitrary: r st' rule: run_loop.induct)
  case (1 env q N t st)
  show ?case
  proof (cases "t \<le> N")
    case False
    then have "generate_final_answer env q st = (r, st')"
      using "1.prems" by (simp add: run_loop.simps)
    from final_answer_effect[OF this] False show ?thesis by simp
  next
    case True
    show ?thesis
    proof (cases "turn env q t st")
      case (Continue s)
      then have loop: "run_loop env q N (t + 1) s = (r, st')"
        using "1.prems" True by (simp add: run_loop.simps)
      from "1.IH"[OF True Continue loop] obtain new where new:
        "total_time (metrics st') = total_time (metrics s)"
        "planning_log st' = planning_log s @ new" "length new \<le> nat (N + 1 - (t + 1))"
        "(\<exists>e. r = Inl e) \<or> (new \<noteq> [] \<and> finish_reply env (snd (last new))) \<or>
           length new = nat (N + 1 - (t + 1))"
        by blast
      from turn_effect[OF Continue] have s:
        "planning_log s = planning_log st @ [planning_entry env q st]"
        "total_time (metrics s) = total_time (metrics st)" by simp_all
      let ?new = "planning_entry env q st # new"
      have "planning_log st' = planning_log st @ ?new" using new(2) s(1) by simp
      moreover have "length ?new \<le> nat (N + 1 - t)" using new(3) True by simp
      moreover have "(\<exists>e. r = Inl e) \<or> (?new \<noteq> [] \<and> finish_reply env (snd (last ?new))) \<or>
           length ?new = nat (N + 1 - t)"
        using new(4) True by auto
      ultimately show ?thesis using new(1) s(2) by metis
    next
      case (Break s)
      then have fa: "generate_final_answer env q s = (r, st')"
        using "1.prems" True by (simp add: run_loop.simps)
      from turn_effect[OF Break] have s:
        "planning_log s = planning_log st @ [planning_entry env q st]"
        "total_time (metrics s) = total_time (metrics st)"
        "finish_reply env (snd (planning_entry env q st))" by simp_all
      from final_answer_effect[OF fa] s True show ?thesis
        by (intro conjI exI[of _ "[planning_entry env q st]"]) auto
    next
      case (Return r' s)
      then have eq: "r = r'" "st' = s"
        using "1.prems" True by (simp_all add: run_loop.simps)
      from turn_effect[OF Return] eq True show ?thesis
        by (intro conjI exI[of _ "[planning_entry env q st]"]) auto
    qed
  qed
qed

lemma loop_state_invariant:
  "loop_state env q N st0 t s \<Longrightarrow>
     1 \<le> t \<and> (t = 1 \<or> t \<le> N + 1) \<and>
     planning_calls s = planning_calls st0 + nat (t - 1) \<and>
     run_loop env q N t s = run env q N st0"
proof (induction rule: loop_state.induct)
  case loop_entry
  then show ?case by (simp add: run_def planning_calls_def)
next
  case (loop_next t s s')
  from turn_effect[OF loop_next(3)] have "planning_calls s' = planning_calls s + 1"
    by (simp add: planning_calls_def)
  moreover have "run_loop env q N t s = run_loop env q N (t + 1) s'"
    using loop_next(2,3) by (simp add: run_loop.simps)
  ultimately show ?case using loop_next by (auto simp: nat_add_distrib)
qed

lemma phase2_failed_tool:
  assumes "map_of request ''tool'' = Some (JStr name)"
    and "(tools env name = None \<and> msg = ''Unknown tool: '' @ name) \<or>
         (\<exists>f. tools env name = Some f \<and>
              f (length (tool_log st)) (call_params (dict_get request ''params'' (JObj []))) = Inl msg)"
  shows "\<exists>st'. phase2_execution env request st = (Inr (error_result env msg), st')"
  using assms
  by (auto simp: phase2_execution_def Let_def dict_get_def dict_contains_def str_of_def)

lemma phase2_unhashable_tool:
  "map_of request ''tool'' = Some (JArr xs) \<Longrightarrow>
     fst (phase2_execution env request st) = Inl (TypeError (''unhashable type: 'list'' @ [CHR 0x27]))"
  by (simp add: phase2_execution_def Let_def dict_get_def dict_contains_def)

lemma tool_log_add_phase1 [simp]: "tool_log (add_phase1_time env st) = tool_log st"
  by (simp add: add_phase1_time_def)

lemma run_total_time: "total_time (metrics (snd (run env q N st))) = total_time (metrics st)"
proof -
  obtain r st' where "run_loop env q N 1 (st\<lparr>state_summary := ''No actions taken yet.''\<rparr>) = (r, st')"
    by (cases "run_loop env q N 1 (st\<lparr>state_summary := ''No actions taken yet.''\<rparr>)")
  from run_loop_effect[OF this] this show ?thesis by (simp add: run_def)
qed

section \<open>Properties of the reasoning-trace stripping\<close>

text \<open>
  C8 (counterexample). Stripping is not idempotent on every text: removing the trace in
  \<^verbatim>\<open><thi<think>x</think>nk>y</think>\<close> joins the two fragments around it into a new matched
  pair of markers, which a second pass removes as well.
\<close>

theorem strip_think_twice_differs:
  "strip_think ''<thi<think>x</think>nk>y</think>'' = ''<think>y</think>'' \<and>
   strip_think (strip_think ''<thi<think>x</think>nk>y</think>'') = [] \<and>
   strip_think (strip_think ''<thi<think>x</think>nk>y</think>'') \<noteq>
     strip_think ''<thi<think>x</think>nk>y</think>''"
  by code_simp

text \<open>
  C8 (amended). Stripping twice equals stripping once for every text in which each \<open><\<close>
  begins a complete start or end marker (\<open>well_marked\<close>); and for an arbitrary text it does so
  exactly when the text stripped once holds no start marker with an end marker after it
  (\<open>has_pair\<close>).
\<close>

theorem strip_think_idempotent:
  "(well_marked s \<longrightarrow> strip_think (strip_think s) = strip_think s) \<and>
   (strip_think (strip_think s) = strip_think s \<longleftrightarrow> \<not> has_pair (strip_think s))"
  using strip_think_idem_well_marked[of s] strip_think_fixed_iff[of "strip_think s"] by blast

theorem strip_think_idempotent_witness:
  "well_marked ''a<think>b</think>c<think>d'' \<and>
   strip_think (strip_think ''a<think>b</think>c<think>d'') = strip_think ''a<think>b</think>c<think>d'' \<and>
   strip_think ''a<think>b</think>c<think>d'' = ''ac<think>d'' \<and>
   \<not> has_pair (strip_think ''a<think>b</think>c<think>d'')"
proof -
  have wm: "well_marked ''a<think>b</think>c<think>d''" by simp
  have val: "strip_think ''a<think>b</think>c<think>d'' = ''ac<think>d''" by code_simp
  from strip_think_idempotent[of "''a<think>b</think>c<think>d''"] wm
  have idem: "strip_think (strip_think ''a<think>b</think>c<think>d'') =
      strip_think ''a<think>b</think>c<think>d''"
    and np: "\<not> has_pair (strip_think ''a<think>b</think>c<think>d'')"
    by blast+
  from wm idem val np show ?thesis by blast
qed

section \<open>Properties of the response parser\<close>

lemma parse_tool_request_direct:
  "try_loads loads (clean_response raw) = Some result \<Longrightarrow> parse_tool_request loads raw = result"
  by (simp add: parse_tool_request_def)

lemma try_loads_finish:
  assumes "loads s = Some (JObj m)" and "map_of m ''tool'' = Some v"
    and "v = JNull \<or> v = JStr ''null''"
  shows "try_loads loads s = Some None"
  using assms by (auto simp: try_loads_def)

lemma try_loads_request:
  "try_loads loads s = Some (Some d) \<Longrightarrow>
     loads s = Some (JObj d) \<and> (\<exists>v. map_of d ''tool'' = Some v \<and> v \<noteq> JNull \<and> v \<noteq> JStr ''null'')"
  by (auto simp: try_loads_def split: option.splits json.splits if_splits)

text \<open>
  C2 (counterexample). The text \<^verbatim>\<open>{"tool": ""}\<close> decodes to a mapping whose \<open>tool\<close> is the
  empty string, and the parser returns that mapping as a tool request, not the finish
  signal \<open>None\<close>.
\<close>

theorem parse_empty_tool_is_request:
  \<open>json_loads (clean_response ''{"tool": ""}'') = Some (JObj [(''tool'', JStr '''')]) \<and>
   parse_tool_request json_loads ''{"tool": ""}'' = Some [(''tool'', JStr '''')]\<close>
  by code_simp

text \<open>
  C2 (amended). For every raw text that, after trace and fence stripping, decodes to a
  mapping with a \<open>tool\<close> key whose value is null or the string \<open>null\<close>, the parser returns
  \<open>None\<close>, the finish signal. (The empty string is not among the finishing values.)
\<close>

theorem parse_finish_signal:
  assumes "loads (clean_response raw) = Some (JObj m)"
    and "map_of m ''tool'' = Some v"
    and "v = JNull \<or> v = JStr ''null''"
  shows "parse_tool_request loads raw = None"
proof -
  have "try_loads loads (clean_response raw) = Some None"
    using assms by (auto simp: try_loads_def)
  then show ?thesis by (simp add: parse_tool_request_def)
qed

theorem parse_finish_signal_witness:
  \<open>json_loads (clean_response ''```json {"tool": null} ```'') = Some (JObj [(''tool'', JNull)]) \<and>
   parse_tool_request json_loads ''```json {"tool": null} ```'' = None \<and>
   json_loads (clean_response ''{"tool": "null"}'') = Some (JObj [(''tool'', JStr ''null'')]) \<and>
   parse_tool_request json_loads ''{"tool": "null"}'' = None\<close>
proof -
  have d1: \<open>json_loads (clean_response ''```json {"tool": null} ```'') = Some (JObj [(''tool'', JNull)])\<close>
    by code_simp
  have d2: \<open>json_loads (clean_response ''{"tool": "null"}'') = Some (JObj [(''tool'', JStr ''null'')])\<close>
    by code_simp
  have r1: \<open>parse_tool_request json_loads ''```json {"tool": null} ```'' = None\<close>
    using parse_finish_signal[of json_loads \<open>''```json {"tool": null} ```''\<close> "[(''tool'', JNull)]" JNull] d1
    by simp
  have r2: \<open>parse_tool_request json_loads ''{"tool": "null"}'' = None\<close>
    using parse_finish_signal[of json_loads \<open>''{"tool": "null"}''\<close> "[(''tool'', JStr ''null'')]" "JStr ''null''"] d2
    by simp
  from d1 r1 d2 r2 show ?thesis by blast
qed

text \<open>
  C7 (counterexample). A well-formed finish signal and a text with no JSON object in it
  give the same value, \<open>None\<close>.
\<close>

theorem parse_finish_equals_failure:
  \<open>parse_tool_request json_loads ''{"tool": null}'' = None \<and>
   parse_tool_request json_loads ''no json here'' = None \<and>
   parse_tool_request json_loads ''{"tool": null}'' = parse_tool_request json_loads ''no json here''\<close>
  by code_simp

text \<open>
  C7 (amended). The parser has two outcomes. It returns either a tool request, a mapping
  whose \<open>tool\<close> key holds a value other than null and the string \<open>null\<close>, or \<open>None\<close>; and
  \<open>None\<close> is returned both for a finish signal and for a text from which no mapping with
  a \<open>tool\<close> key can be decoded, directly or from its first balanced brace group.
\<close>

theorem parse_two_outcomes:
  "(parse_tool_request loads raw = None \<or>
    (\<exists>d v. parse_tool_request loads raw = Some d \<and> map_of d ''tool'' = Some v \<and>
       v \<noteq> JNull \<and> v \<noteq> JStr ''null'')) \<and>
   (loads (clean_response raw) = Some (JObj m) \<and> map_of m ''tool'' = Some JNull
      \<longrightarrow> parse_tool_request loads raw = None) \<and>
   (try_loads loads (clean_response raw) = None \<and>
    (\<forall>js. extract_json_object (clean_response raw) = Some js \<longrightarrow> try_loads loads js = None)
      \<longrightarrow> parse_tool_request loads raw = None)"
proof (intro conjI impI)
  show "parse_tool_request loads raw = None \<or>
    (\<exists>d v. parse_tool_request loads raw = Some d \<and> map_of d ''tool'' = Some v \<and>
       v \<noteq> JNull \<and> v \<noteq> JStr ''null'')"
  proof (cases "parse_tool_request loads raw")
    case None
    then show ?thesis by simp
  next
    case (Some d)
    then obtain s where "try_loads loads s = Some (Some d)"
      by (auto simp: parse_tool_request_def Let_def split: option.splits)
    from try_loads_request[OF this] Some show ?thesis by auto
  qed
next
  assume "loads (clean_response raw) = Some (JObj m) \<and> map_of m ''tool'' = Some JNull"
  then show "parse_tool_request loads raw = None"
    by (simp add: parse_tool_request_def try_loads_def)
next
  assume "try_loads loads (clean_response raw) = None \<and>
    (\<forall>js. extract_json_object (clean_response raw) = Some js \<longrightarrow> try_loads loads js = None)"
  then show "parse_tool_request loads raw = None"
    by (auto simp: parse_tool_request_def Let_def split: option.splits)
qed

theorem parse_two_outcomes_witness:
  \<open>json_loads (clean_response ''{"tool": null}'') = Some (JObj [(''tool'', JNull)]) \<and>
   parse_tool_request json_loads ''{"tool": null}'' = None \<and>
   try_loads json_loads (clean_response ''no json here'') = None \<and>
   extract_json_object (clean_response ''no json here'') = None \<and>
   parse_tool_request json_loads ''no json here'' = None \<and>
   parse_tool_request json_loads ''{"tool": "calculate"}'' = Some [(''tool'', JStr ''calculate'')]\<close>
proof -
  have a: \<open>json_loads (clean_response ''{"tool": null}'') = Some (JObj [(''tool'', JNull)])\<close>
    by code_simp
  have b: \<open>try_loads json_loads (clean_response ''no json here'') = None\<close>
    by code_simp
  have c: \<open>extract_json_object (clean_response ''no json here'') = None\<close>
    by code_simp
  have d: \<open>parse_tool_request json_loads ''{"tool": "calculate"}'' = Some [(''tool'', JStr ''calculate'')]\<close>
    by code_simp
  have e: \<open>parse_tool_request json_loads ''{"tool": null}'' = None\<close>
    using parse_two_outcomes[of json_loads \<open>''{"tool": null}''\<close> "[(''tool'', JNull)]"] a by simp
  have f: \<open>parse_tool_request json_loads ''no json here'' = None\<close>
    using parse_two_outcomes[of json_loads "''no json here''"] b c by simp
  from a b c d e f show ?thesis by blast
qed

text \<open>
  C4 (counterexample). A brace inside a string value defeats the brace counting: the bare
  object parses to a tool request, the same object after prose and inside a fence does not.
\<close>

theorem parse_wrapped_brace_in_string:
  \<open>parse_tool_request json_loads ''{"tool":"x","params":{"a":"}"}}'' =
     Some [(''tool'', JStr ''x''), (''params'', JObj [(''a'', JStr ''}'')])] \<and>
   parse_tool_request json_loads ''ok: ```json {"tool":"x","params":{"a":"}"}} ```'' = None\<close>
  by code_simp

text \<open>
  C4 (amended). Let the raw text, once its reasoning traces are removed, consist of an
  object text \<open>obj\<close> preceded by text without an opening brace and followed by any text,
  where \<open>obj\<close> starts with \<open>{\<close>, its brace count returns to zero exactly at its last
  character, and it holds neither a backtick nor a reasoning trace. If what is left after
  cleaning is either \<open>obj\<close> itself or not valid JSON as a whole, then the parser returns on
  the raw text what it returns on \<open>obj\<close> alone.
\<close>

theorem parse_wrapped_object:
  assumes "strip_think raw = a @ obj @ b"
    and "CHR ''{'' \<notin> set a"
    and "obj = CHR ''{'' # o'"
    and "scan_braces 0 obj = Some obj"
    and "CHR ''`'' \<notin> set obj"
    and "\<not> has_pair obj"
    and "clean_response raw = obj \<or> loads (clean_response raw) = None"
  shows "parse_tool_request loads raw = parse_tool_request loads obj"
proof -
  from clean_response_mid[OF assms(1-5)] obtain a' b'
    where c: "clean_response raw = a' @ obj @ b'" and a': "CHR ''{'' \<notin> set a'" by blast
  have ex: "extract_json_object (clean_response raw) = Some obj"
    unfolding c using a' assms(3,4) by (rule extract_json_object_mid)
  have co: "clean_response obj = obj"
    using assms(3-6) by (rule clean_response_object)
  have eo: "extract_json_object obj = Some obj"
    using extract_json_object_mid[of "[]" obj o' "[]"] assms(3,4) by simp
  note alone = parse_object_alone[OF co eo, of loads]
  from assms(7) show ?thesis
  proof
    assume "clean_response raw = obj"
    then show ?thesis using co by (simp add: parse_tool_request_def)
  next
    assume "loads (clean_response raw) = None"
    then have "try_loads loads (clean_response raw) = None" by (simp add: try_loads_def)
    then have "parse_tool_request loads raw =
        (case try_loads loads obj of Some result \<Rightarrow> result | None \<Rightarrow> None)"
      using ex by (simp add: parse_tool_request_def)
    with alone show ?thesis by simp
  qed
qed

theorem parse_wrapped_object_witness:
  "strip_think (spec_example_prose @ spec_example_object @ spec_example_close) =
     spec_example_prose @ spec_example_object @ spec_example_close \<and>
   CHR ''{'' \<notin> set spec_example_prose \<and>
   spec_example_object = CHR ''{'' # tl spec_example_object \<and>
   scan_braces 0 spec_example_object = Some spec_example_object \<and>
   CHR ''`'' \<notin> set spec_example_object \<and>
   \<not> has_pair spec_example_object \<and>
   json_loads (clean_response (spec_example_prose @ spec_example_object @ spec_example_close)) = None \<and>
   parse_tool_request json_loads (spec_example_prose @ spec_example_object @ spec_example_close) =
     parse_tool_request json_loads spec_example_object \<and>
   parse_tool_request json_loads spec_example_object =
     Some [(''tool'', JStr ''read_file''), (''params'', JObj [(''path'', JStr ''a.txt'')])]"
proof -
  let ?raw = "spec_example_prose @ spec_example_object @ spec_example_close"
  have h1: "strip_think ?raw = ?raw" by code_simp
  have h2: "CHR ''{'' \<notin> set spec_example_prose" by code_simp
  have h3: "spec_example_object = CHR ''{'' # tl spec_example_object" by code_simp
  have h4: "scan_braces 0 spec_example_object = Some spec_example_object" by code_simp
  have h5: "CHR ''`'' \<notin> set spec_example_object" by code_simp
  have h6: "\<not> has_pair spec_example_object" by code_simp
  have h7: "json_loads (clean_response ?raw) = None" by code_simp
  have v: "parse_tool_request json_loads spec_example_object =
     Some [(''tool'', JStr ''read_file''), (''params'', JObj [(''path'', JStr ''a.txt'')])]"
    by code_simp
  have "parse_tool_request json_loads ?raw = parse_tool_request json_loads spec_example_object"
    using parse_wrapped_object[of ?raw spec_example_prose spec_example_object spec_example_close
        "tl spec_example_object" json_loads] h1 h2 h3 h4 h5 h6 h7
    by blast
  with h1 h2 h3 h4 h5 h6 h7 v show ?thesis by blast
qed

section \<open>Properties of the result filter\<close>

text \<open>
  C6. A mapping whose serialisation with \<^verbatim>\<open>indent=2\<close> is shorter than 500 characters is
  returned as it is, whatever the requested fields, and the orchestrator is left as it
  was: no generation call is made.
\<close>

theorem filter_small_passthrough:
  "length (json_dumps_indent_fn env (JObj raw)) < 500 \<Longrightarrow>
     filter_response env (JObj raw) filter_fields st = (Inr (JObj raw), st)"
  by (simp add: filter_response_def)

theorem filter_small_passthrough_witness:
  "length (json_dumps_indent (JObj calculate_result)) < 500 \<and>
   filter_response (library_env (\<lambda>n. None) (\<lambda>n req. Inr ''{}'')) (JObj calculate_result)
       (JArr [JStr ''result'']) new_orchestrator
     = (Inr (JObj calculate_result), new_orchestrator)"
proof -
  have small: "length (json_dumps_indent (JObj calculate_result)) < 500" by code_simp
  then have "length (json_dumps_indent_fn (library_env (\<lambda>n. None) (\<lambda>n req. Inr ''{}''))
      (JObj calculate_result)) < 500"
    by (simp add: library_env_def)
  from filter_small_passthrough[OF this] small show ?thesis by simp
qed



section \<open>Properties of the turn loop\<close>

text \<open>
  C1 (failing input). A planner whose reply is \<^verbatim>\<open>{"tool": ["read_file"]}\<close> ends the run in
  none of the three ways the specification lists. The reply parses to a tool request; testing
  whether the list is a key of the registry raises \<^verbatim>\<open>TypeError\<close>, which nothing in
  \<^verbatim>\<open>_phase2_execution\<close> or \<^verbatim>\<open>run\<close> catches; the run ends with it after one planning call.
\<close>

theorem run_raises_on_list_tool:
  \<open>parse_tool_request json_loads ''{"tool": ["read_file"]}'' = Some [(''tool'', JArr [JStr ''read_file''])] \<and>
   fst (run (library_env (\<lambda>n. None) list_tool_backend) ''q'' 2 new_orchestrator)
     = Inl (TypeError (''unhashable type: 'list'' @ [CHR 0x27])) \<and>
   planning_calls (snd (run (library_env (\<lambda>n. None) list_tool_backend) ''q'' 2 new_orchestrator)) = 1\<close>
  by code_simp

text \<open>
  What holds of the loop for every backend. For every maximum \<open>N\<close> of at least one turn,
  \<^verbatim>\<open>run\<close> returns after at most \<open>N\<close> planning calls. It ends with an exception that
  propagates out of it, or with an answer after a planning reply that yields no tool
  request (the finish signal), or with the final answer after exactly \<open>N\<close> planning calls.
  Whenever the loop condition is tested, \<^verbatim>\<open>current_turn\<close> lies between 1 and \<open>N + 1\<close> and
  is one more than the number of planning calls made so far in this run, so it grows by
  one with every turn; and the run's outcome is that of the loop continued from there.
\<close>

theorem run_terminates_within_max_turns:
  assumes "1 \<le> N" and "run env query N st = (r, st')"
  shows "planning_calls st' \<le> planning_calls st + nat N \<and>
     ((\<exists>e. r = Inl e) \<or>
      (\<exists>answer reply. r = Inr answer \<and> last_planning_reply st' = Some (Inr reply) \<and>
          parse_tool_request (json_loads_fn env) reply = None) \<or>
      (\<exists>answer. r = Inr answer \<and> planning_calls st' = planning_calls st + nat N)) \<and>
     (\<forall>t s. loop_state env query N st t s \<longrightarrow>
        1 \<le> t \<and> t \<le> N + 1 \<and> planning_calls s = planning_calls st + nat (t - 1) \<and>
        run_loop env query N t s = (r, st'))"
proof -
  let ?s0 = "st\<lparr>state_summary := ''No actions taken yet.''\<rparr>"
  have "run_loop env query N 1 ?s0 = (r, st')" using assms(2) by (simp add: run_def)
  from run_loop_effect[OF this] obtain new where new:
    "planning_log st' = planning_log st @ new" "length new \<le> nat N"
    "(\<exists>e. r = Inl e) \<or> (new \<noteq> [] \<and> finish_reply env (snd (last new))) \<or> length new = nat N"
    by (auto simp: planning_log_def)
  have bound: "planning_calls st' \<le> planning_calls st + nat N"
    using new(1,2) by (simp add: planning_calls_def)
  have cls: "(\<exists>e. r = Inl e) \<or>
      (\<exists>answer reply. r = Inr answer \<and> last_planning_reply st' = Some (Inr reply) \<and>
          parse_tool_request (json_loads_fn env) reply = None) \<or>
      (\<exists>answer. r = Inr answer \<and> planning_calls st' = planning_calls st + nat N)"
  proof (cases r)
    case (Inl e)
    then show ?thesis by simp
  next
    case (Inr answer)
    with new(3) consider "new \<noteq> [] \<and> finish_reply env (snd (last new))" | "length new = nat N"
      by auto
    then show ?thesis
    proof cases
      case 1
      then have "last_planning_reply st' = Some (snd (last new))"
        using new(1) by (simp add: last_planning_reply_def)
      with 1 Inr show ?thesis by (auto simp: finish_reply_def split: sum.splits)
    next
      case 2
      with new(1) Inr show ?thesis by (simp add: planning_calls_def)
    qed
  qed
  have inv: "\<forall>t s. loop_state env query N st t s \<longrightarrow>
        1 \<le> t \<and> t \<le> N + 1 \<and> planning_calls s = planning_calls st + nat (t - 1) \<and>
        run_loop env query N t s = (r, st')"
  proof (intro allI impI)
    fix t s
    assume "loop_state env query N st t s"
    from loop_state_invariant[OF this] assms
    show "1 \<le> t \<and> t \<le> N + 1 \<and> planning_calls s = planning_calls st + nat (t - 1) \<and>
        run_loop env query N t s = (r, st')"
      by auto
  qed
  from bound cls inv show ?thesis by blast
qed

theorem run_terminates_within_max_turns_witness:
  \<open>(1::int) \<le> 2 \<and>
   planning_calls (snd (run (library_env (\<lambda>n. None) stubborn_backend) ''q'' 2 new_orchestrator))
     \<le> planning_calls new_orchestrator + nat 2 \<and>
   planning_calls (snd (run (library_env (\<lambda>n. None) stubborn_backend) ''q'' 2 new_orchestrator)) = 2 \<and>
   fst (run (library_env (\<lambda>n. None) stubborn_backend) ''q'' 2 new_orchestrator)
     = Inr ''I could not finish.'' \<and>
   fst (run (library_env (\<lambda>n. None) finishing_backend) ''q'' 2 new_orchestrator)
     = Inr ''Hello! How can I help?'' \<and>
   last_planning_reply (snd (run (library_env (\<lambda>n. None) finishing_backend) ''q'' 2 new_orchestrator))
     = Some (Inr ''{"tool": null}'')\<close>
proof -
  let ?E = "library_env (\<lambda>n. None) stubborn_backend"
  let ?F = "library_env (\<lambda>n. None) finishing_backend"
  have "run ?E ''q'' 2 new_orchestrator =
      (fst (run ?E ''q'' 2 new_orchestrator), snd (run ?E ''q'' 2 new_orchestrator))"
    by simp
  from run_terminates_within_max_turns[OF _ this]
  have bound: "planning_calls (snd (run ?E ''q'' 2 new_orchestrator))
      \<le> planning_calls new_orchestrator + nat 2"
    by simp
  have calls: "planning_calls (snd (run ?E ''q'' 2 new_orchestrator)) = 2" by code_simp
  have ans: "fst (run ?E ''q'' 2 new_orchestrator) = Inr ''I could not finish.''"
    by code_simp
  have fin: "fst (run ?F ''q'' 2 new_orchestrator) = Inr ''Hello! How can I help?''"
    by code_simp
  have rep: \<open>last_planning_reply (snd (run ?F ''q'' 2 new_orchestrator)) = Some (Inr ''{"tool": null}'')\<close>
    by code_simp
  from bound calls ans fin rep show ?thesis by simp
qed

text \<open>
  C3 (failing input). For the request \<^verbatim>\<open>{"tool": ["read_file"]}\<close> the execution phase
  raises: the tool value is not a key of the registry, but a list cannot be hashed, and
  the membership test stands outside the \<^verbatim>\<open>try\<close> block. The turn ends the run with the
  exception.
\<close>

theorem phase2_raises_on_list_tool:
  "fst (phase2_execution (library_env (\<lambda>n. None) list_tool_backend)
          [(''tool'', JArr [JStr ''read_file''])] new_orchestrator)
     = Inl (TypeError (''unhashable type: 'list'' @ [CHR 0x27])) \<and>
   (\<exists>st'. turn (library_env (\<lambda>n. None) list_tool_backend) ''q'' 1 new_orchestrator
            = Return (Inl (TypeError (''unhashable type: 'list'' @ [CHR 0x27]))) st')"
proof -
  let ?E = "library_env (\<lambda>n. None) list_tool_backend"
  have a: "fst (phase2_execution ?E [(''tool'', JArr [JStr ''read_file''])] new_orchestrator)
      = Inl (TypeError (''unhashable type: 'list'' @ [CHR 0x27]))"
    by (simp add: phase2_unhashable_tool)
  have p: "fst (phase1_planning ?E ''q'' new_orchestrator)
      = Inr (Some [(''tool'', JArr [JStr ''read_file''])])"
    by code_simp
  obtain st1 where p1: "phase1_planning ?E ''q'' new_orchestrator
      = (Inr (Some [(''tool'', JArr [JStr ''read_file''])]), st1)"
    using p by (metis prod.collapse)
  obtain r2 st2 where p2: "phase2_execution ?E [(''tool'', JArr [JStr ''read_file''])]
      (add_phase1_time ?E st1) = (r2, st2)"
    by (cases "phase2_execution ?E [(''tool'', JArr [JStr ''read_file''])] (add_phase1_time ?E st1)")
  have "r2 = Inl (TypeError (''unhashable type: 'list'' @ [CHR 0x27]))"
    using phase2_unhashable_tool[of "[(''tool'', JArr [JStr ''read_file''])]" "[JStr ''read_file'']"
        ?E "add_phase1_time ?E st1"] p2 by simp
  with p1 p2 have "turn ?E ''q'' 1 new_orchestrator
      = Return (Inl (TypeError (''unhashable type: 'list'' @ [CHR 0x27]))) st2"
    by (simp add: turn_def Let_def)
  with a show ?thesis by blast
qed

text \<open>
  What holds when the request names its tool by a string. If the name is not a key of the
  registry, or the registered tool raises an exception, the execution phase returns the
  serialised mapping \<^verbatim>\<open>{"error": msg}\<close>, where \<open>msg\<close> is \<^verbatim>\<open>Unknown tool: <name>\<close> or the
  exception's message. The turn then makes the state-update call with that text, and
  unless that call itself fails in the backend, the turn ends in \<open>Continue\<close>: the loop
  goes on with the next turn.
\<close>

theorem failed_tool_call_is_ordinary_turn:
  assumes "phase1_planning env query st = (Inr (Some request), st1)"
    and "map_of request ''tool'' = Some (JStr name)"
    and "(tools env name = None \<and> msg = ''Unknown tool: '' @ name) \<or>
         (\<exists>f. tools env name = Some f \<and>
              f (length (tool_log st1)) (call_params (dict_get request ''params'' (JObj []))) = Inl msg)"
  shows "\<exists>st2. phase2_execution env request (add_phase1_time env st1) = (Inr (error_result env msg), st2) \<and>
     turn env query current_turn st =
       (case phase3_update_state env query request (error_result env msg) (add_phase2_time env st2) of
          (Inl e, st3) \<Rightarrow> Return (Inl e) st3
        | (Inr u, st3) \<Rightarrow> Continue (add_phase3_time env st3)) \<and>
     (\<forall>reply. generate env (length (gen_log (add_phase2_time env st2)))
          (update_state_request env query request (error_result env msg) (add_phase2_time env st2)) = Inr reply
        \<longrightarrow> (\<exists>st'. turn env query current_turn st = Continue st' \<and>
              (\<forall>max_turns. current_turn \<le> max_turns \<longrightarrow>
                 run_loop env query max_turns current_turn st =
                 run_loop env query max_turns (current_turn + 1) st')))"
proof -
  from phase2_failed_tool[of request name env msg "add_phase1_time env st1"] assms(2,3)
  obtain st2 where p2: "phase2_execution env request (add_phase1_time env st1) = (Inr (error_result env msg), st2)"
    by auto
  let ?s2 = "add_phase2_time env st2"
  let ?req = "update_state_request env query request (error_result env msg) ?s2"
  have t: "turn env query current_turn st =
       (case phase3_update_state env query request (error_result env msg) ?s2 of
          (Inl e, st3) \<Rightarrow> Return (Inl e) st3
        | (Inr u, st3) \<Rightarrow> Continue (add_phase3_time env st3))"
    using assms(1) p2 by (simp add: turn_def Let_def)
  have c: "\<exists>st'. turn env query current_turn st = Continue st' \<and>
              (\<forall>max_turns. current_turn \<le> max_turns \<longrightarrow>
                 run_loop env query max_turns current_turn st =
                 run_loop env query max_turns (current_turn + 1) st')"
    if "generate env (length (gen_log ?s2)) ?req = Inr reply" for reply
  proof -
    from that obtain st3 where "phase3_update_state env query request (error_result env msg) ?s2 = (Inr (), st3)"
      by (simp add: phase3_update_state_def inference_generate_def Let_def)
    with t have "turn env query current_turn st = Continue (add_phase3_time env st3)" by simp
    then show ?thesis by (simp add: run_loop.simps)
  qed
  from p2 t c show ?thesis by blast
qed

theorem failed_tool_call_is_ordinary_turn_witness:
  \<open>fst (phase1_planning (library_env (\<lambda>n. None) stubborn_backend) ''q'' new_orchestrator)
     = Inr (Some [(''tool'', JStr ''does_not_exist'')]) \<and>
   fst (phase2_execution (library_env (\<lambda>n. None) stubborn_backend) [(''tool'', JStr ''does_not_exist'')]
          (add_phase1_time (library_env (\<lambda>n. None) stubborn_backend)
             (snd (phase1_planning (library_env (\<lambda>n. None) stubborn_backend) ''q'' new_orchestrator))))
     = Inr ''{"error": "Unknown tool: does_not_exist"}'' \<and>
   (\<exists>st'. turn (library_env (\<lambda>n. None) stubborn_backend) ''q'' 1 new_orchestrator = Continue st') \<and>
   fst (phase2_execution (library_env failing_registry stubborn_backend) [(''tool'', JStr ''calculate'')]
          new_orchestrator)
     = Inr ''{"error": "division by zero"}''\<close>
proof -
  let ?E = "library_env (\<lambda>n. None) stubborn_backend"
  let ?req = "[(''tool'', JStr ''does_not_exist'')]"
  let ?st1 = "snd (phase1_planning ?E ''q'' new_orchestrator)"
  let ?msg = "''Unknown tool: does_not_exist''"
  have p: "fst (phase1_planning ?E ''q'' new_orchestrator) = Inr (Some ?req)" by code_simp
  then have plan: "phase1_planning ?E ''q'' new_orchestrator = (Inr (Some ?req), ?st1)"
    by (metis prod.collapse)
  have name: "map_of ?req ''tool'' = Some (JStr ''does_not_exist'')" by simp
  have unknown: "(tools ?E ''does_not_exist'' = None \<and> ?msg = ''Unknown tool: '' @ ''does_not_exist'') \<or>
      (\<exists>f. tools ?E ''does_not_exist'' = Some f \<and>
          f (length (tool_log ?st1)) (call_params (dict_get ?req ''params'' (JObj []))) = Inl ?msg)"
    by (simp add: library_env_def)
  from failed_tool_call_is_ordinary_turn[OF plan name unknown, of 1]
  obtain st2 where st2:
    "phase2_execution ?E ?req (add_phase1_time ?E ?st1) = (Inr (error_result ?E ?msg), st2)"
    "\<forall>reply. generate ?E (length (gen_log (add_phase2_time ?E st2)))
          (update_state_request ?E ''q'' ?req (error_result ?E ?msg) (add_phase2_time ?E st2)) = Inr reply
        \<longrightarrow> (\<exists>st'. turn ?E ''q'' 1 new_orchestrator = Continue st' \<and>
              (\<forall>max_turns. 1 \<le> max_turns \<longrightarrow>
                 run_loop ?E ''q'' max_turns 1 new_orchestrator =
                 run_loop ?E ''q'' max_turns (1 + 1) st'))"
    by blast
  have err: \<open>error_result ?E ?msg = ''{"error": "Unknown tool: does_not_exist"}''\<close> by code_simp
  have e2: \<open>fst (phase2_execution ?E ?req (add_phase1_time ?E ?st1))
      = Inr ''{"error": "Unknown tool: does_not_exist"}''\<close>
    using st2(1) err by simp
  have "generate ?E (length (gen_log (add_phase2_time ?E st2)))
          (update_state_request ?E ''q'' ?req (error_result ?E ?msg) (add_phase2_time ?E st2))
        = Inr ''The tool call failed.''"
    by (simp add: library_env_def stubborn_backend_def update_state_request_def)
  with st2(2) have cont: "\<exists>st'. turn ?E ''q'' 1 new_orchestrator = Continue st'" by blast
  have raised: \<open>fst (phase2_execution (library_env failing_registry stubborn_backend)
      [(''tool'', JStr ''calculate'')] new_orchestrator) = Inr ''{"error": "division by zero"}''\<close>
    by code_simp
  from p e2 cont raised show ?thesis by blast
qed

text \<open>
  C9 (counterexample). With an empty query and one turn the run makes its planning call
  and answers; with no turn at all it answers as well. No configuration error is raised
  in either case.
\<close>

theorem run_accepts_empty_query_and_zero_turns:
  "fst (run (library_env (\<lambda>n. None) finishing_backend) [] 1 new_orchestrator)
     = Inr ''Hello! How can I help?'' \<and>
   map (\<lambda>entry. prompt (fst entry))
       (gen_log (snd (run (library_env (\<lambda>n. None) finishing_backend) [] 1 new_orchestrator)))
     = [PlanningPrompt [] ''No actions taken yet.'', DirectPrompt []] \<and>
   fst (run (library_env (\<lambda>n. None) finishing_backend) ''q'' 0 new_orchestrator)
     = Inr ''Hello! How can I help?''"
  by code_simp

text \<open>
  C9 (amended). For every call with fewer than one turn allowed, the loop body never runs:
  the run makes no planning, tool or state-update call, only the one generation call of
  the final answer, built from the query and the initial summary, whose text it returns
  (or whose backend failure it propagates).
\<close>

theorem run_without_turns:
  assumes "max_turns < 1"
  shows "run env query max_turns st =
           generate_final_answer env query (st\<lparr>state_summary := ''No actions taken yet.''\<rparr>) \<and>
         gen_log (snd (run env query max_turns st)) =
           gen_log st @ [(final_answer_request env query (st\<lparr>state_summary := ''No actions taken yet.''\<rparr>),
                          generate env (length (gen_log st))
                            (final_answer_request env query (st\<lparr>state_summary := ''No actions taken yet.''\<rparr>)))] \<and>
         planning_calls (snd (run env query max_turns st)) = planning_calls st \<and>
         tool_log (snd (run env query max_turns st)) = tool_log st \<and>
         fst (run env query max_turns st) =
           (case generate env (length (gen_log st))
                   (final_answer_request env query (st\<lparr>state_summary := ''No actions taken yet.''\<rparr>)) of
              Inl msg \<Rightarrow> Inl (RuntimeError (''Ollama inference failed: '' @ msg))
            | Inr answer \<Rightarrow> Inr answer)"
proof -
  let ?s0 = "st\<lparr>state_summary := ''No actions taken yet.''\<rparr>"
  have r: "run env query max_turns st = generate_final_answer env query ?s0"
    using assms by (simp add: run_def run_loop.simps)
  show ?thesis
    unfolding r
    by (simp add: generate_final_answer_def inference_generate_def Let_def planning_calls_def
        planning_log_def is_planning_def final_answer_request_def split: sum.splits)
qed

theorem run_without_turns_witness:
  "(0::int) < 1 \<and>
   planning_calls (snd (run (library_env (\<lambda>n. None) stubborn_backend) ''q'' 0 new_orchestrator)) = 0 \<and>
   tool_log (snd (run (library_env (\<lambda>n. None) stubborn_backend) ''q'' 0 new_orchestrator)) = [] \<and>
   fst (run (library_env (\<lambda>n. None) stubborn_backend) ''q'' 0 new_orchestrator)
     = Inr ''I could not finish.''"
proof -
  let ?E = "library_env (\<lambda>n. None) stubborn_backend"
  have lt: "(0::int) < 1" by simp
  let ?s0 = "new_orchestrator\<lparr>state_summary := ''No actions taken yet.''\<rparr>"
  note w = run_without_turns[OF lt, of ?E "''q''" new_orchestrator]
  from w have "planning_calls (snd (run ?E ''q'' 0 new_orchestrator)) = planning_calls new_orchestrator"
    by blast
  then have a: "planning_calls (snd (run ?E ''q'' 0 new_orchestrator)) = 0"
    by (simp add: planning_calls_def planning_log_def new_orchestrator_def)
  from w have "tool_log (snd (run ?E ''q'' 0 new_orchestrator)) = tool_log new_orchestrator"
    by blast
  then have b: "tool_log (snd (run ?E ''q'' 0 new_orchestrator)) = []"
    by (simp add: new_orchestrator_def)
  have g: "generate ?E (length (gen_log new_orchestrator)) (final_answer_request ?E ''q'' ?s0)
      = Inr ''I could not finish.''"
    by (simp add: library_env_def stubborn_backend_def final_answer_request_def)
  from w have "fst (run ?E ''q'' 0 new_orchestrator) =
      (case generate ?E (length (gen_log new_orchestrator)) (final_answer_request ?E ''q'' ?s0) of
         Inl msg \<Rightarrow> Inl (RuntimeError (''Ollama inference failed: '' @ msg))
       | Inr answer \<Rightarrow> Inr answer)"
    by blast
  then have c: "fst (run ?E ''q'' 0 new_orchestrator) = Inr ''I could not finish.''"
    unfolding g by simp
  from lt a b c show ?thesis by blast
qed

text \<open>
  C10. No operation assigns \<^verbatim>\<open>total_time\<close>: after any sequence of \<^verbatim>\<open>run\<close> calls on a new
  orchestrator, \<^verbatim>\<open>get_metrics\<close> reports a total time of zero. (The phase times do
  accumulate, as the example after the theorem shows.)
\<close>

theorem total_time_never_assigned:
  "report_total_time (get_metrics (runs env calls new_orchestrator)) = 0"
proof -
  have "total_time (metrics (runs env calls st)) = total_time (metrics st)" for st
    by (induction calls arbitrary: st) (simp_all add: run_total_time)
  then show ?thesis by (simp add: get_metrics_def new_orchestrator_def)
qed

theorem total_time_never_assigned_witness:
  "report_total_time (get_metrics (runs (library_env (\<lambda>n. None) stubborn_backend)
       [(''q'', 2), (''q'', 1)] new_orchestrator)) = 0 \<and>
   report_phase1_time (get_metrics (runs (library_env (\<lambda>n. None) stubborn_backend)
       [(''q'', 2), (''q'', 1)] new_orchestrator)) = 3"
proof -
  let ?E = "library_env (\<lambda>n. None) stubborn_backend"
  have "report_phase1_time (get_metrics (runs ?E [(''q'', 2), (''q'', 1)] new_orchestrator)) = 3"
    by code_simp
  with total_time_never_assigned[of ?E "[(''q'', 2), (''q'', 1)]"] show ?thesis by simp
qed

end
